theory Spec2Isabelle
  imports Complex_Main
begin

section \<open>Numbers, arrays and exceptions\<close>

text \<open>
  The notebook \<^verbatim>\<open>egm_policy_iter.ipynb\<close> computes with numpy \<^verbatim>\<open>float64\<close> values.
  They are embedded as exact reals: rounding is not modelled, and the values \<^verbatim>\<open>nan\<close>
  and \<^verbatim>\<open>inf\<close> have no counterpart. A numpy array is a list. A Python callable on
  numbers is a function into a sum type, \<open>Inl\<close> carrying the exception it raises.

  No statement of the notebook raises an exception itself. The callables handed to the
  model may raise, and so may numpy's constructors on a negative size. The constructors
  \<open>ConfigurationError\<close>, \<open>DomainError\<close> and \<open>RootBracketError\<close> are the names of the
  specification's error taxonomy; only a user-supplied callable or root-finder could
  raise them.
\<close>

datatype error =
    ConfigurationError
  | DomainError
  | RootBracketError
  | ValueError
  | ZeroDivisionError
  | IndexError

type_synonym callable = "real \<Rightarrow> error + real"

text \<open>
  A callable applied to an array works element by element; the call raises when the
  callable raises for an element. The same function models a \<^verbatim>\<open>for\<close> loop that fills
  an array slot by slot and is left by the first exception.
\<close>

fun map_err :: "('a \<Rightarrow> error + 'b) \<Rightarrow> 'a list \<Rightarrow> error + 'b list" where
  "map_err g [] = Inr []"
| "map_err g (x # xs) =
     (case g x of
        Inl e \<Rightarrow> Inl e
      | Inr v \<Rightarrow> (case map_err g xs of Inl e \<Rightarrow> Inl e | Inr vs \<Rightarrow> Inr (v # vs)))"

text \<open>
  \<^verbatim>\<open>np.empty_like(a)\<close>: a new array of the length of \<open>a\<close> whose contents are whatever
  the memory holds. The memory is made explicit: \<open>mem i\<close> is the value found in slot \<open>i\<close>.
\<close>

definition np_empty_like :: "real list \<Rightarrow> (nat \<Rightarrow> real) \<Rightarrow> real list" where
  "np_empty_like a mem = map mem [0..<length a]"

text \<open>
  A loop that fills an array allocated before it: for every index \<open>i\<close> of \<open>order\<close>, in
  this order, \<^verbatim>\<open>out[i] = body(i)\<close>. The loop is left by the first exception. Slots
  the loop does not write keep their contents. A write past the end of the array raises
  \<^verbatim>\<open>IndexError\<close>, as the assignment does in Python.
\<close>

fun fill_loop :: "(nat \<Rightarrow> error + real) \<Rightarrow> nat list \<Rightarrow> real list \<Rightarrow> error + real list" where
  "fill_loop body [] out = Inr out"
| "fill_loop body (i # order) out =
     (case body i of
        Inl e \<Rightarrow> Inl e
      | Inr v \<Rightarrow> if i < length out then fill_loop body order (out[i := v]) else Inl IndexError)"

text \<open>
  \<^verbatim>\<open>prange(n)\<close> of \<^verbatim>\<open>numba\<close> in a function compiled with
  \<^verbatim>\<open>parallel=True\<close>: the iterations \<open>0, \<dots>, n - 1\<close> run each once, spread over
  threads. The iterations of the loop below share no data but the arrays they read and
  each writes a slot of its own, so a run is described by the order in which the
  iterations take effect; \<open>prange n order\<close> says that \<open>order\<close> is such an order. In a
  function compiled with \<^verbatim>\<open>parallel=False\<close> the loop is \<^verbatim>\<open>range(n)\<close>, the
  order \<open>[0..<n]\<close>.
\<close>

definition prange :: "nat \<Rightarrow> nat list \<Rightarrow> bool" where
  "prange n order \<longleftrightarrow> distinct order \<and> set order = {0..<n}"

text \<open>
  \<^verbatim>\<open>np.mean\<close>. On an empty array numpy returns \<^verbatim>\<open>nan\<close>, which the reals do not
  have: a theorem below that depends on the value of a mean assumes a non-empty sample.
\<close>

definition np_mean :: "real list \<Rightarrow> real" where
  "np_mean xs = sum_list xs / real (length xs)"

text \<open>
  \<^verbatim>\<open>np.linspace(start, stop, num)\<close>: \<^verbatim>\<open>num\<close> evenly spaced points, both ends
  included; a single point is \<^verbatim>\<open>start\<close>; a negative \<^verbatim>\<open>num\<close> raises
  \<^verbatim>\<open>ValueError\<close>.
\<close>

definition np_linspace :: "real \<Rightarrow> real \<Rightarrow> int \<Rightarrow> error + real list" where
  "np_linspace start stop num =
     (if num < 0 then Inl ValueError
      else if num = 1 then Inr [start]
      else Inr (map (\<lambda>i. real i * ((stop - start) / real (nat num - 1)) + start)
                 [0..<nat num]))"

text \<open>
  \<^verbatim>\<open>np.random.randn(n)\<close> reads numpy's global generator. The generator's state is
  made explicit as the sequence of standard normal draws it is going to return:
  a call takes the first \<open>n\<close> of them and leaves the rest. A negative size raises
  \<^verbatim>\<open>ValueError\<close> and draws nothing.
\<close>

type_synonym rng = "nat \<Rightarrow> real"

definition np_random_randn :: "int \<Rightarrow> rng \<Rightarrow> (error + real list) \<times> rng" where
  "np_random_randn n g =
     (if n < 0 then (Inl ValueError, g)
      else (Inr (map g [0..<nat n]), (\<lambda>i. g (i + nat n))))"

text \<open>
  Modelled from the spec: the value of a linear interpolant on one segment. The
  notebook's interpolation routine \<^verbatim>\<open>interp\<close> belongs to the \<^verbatim>\<open>interpolation\<close>
  package, whose code is not part of the repository; the specification asks for linear
  interpolation. On the segment from \<open>(x0, c0)\<close> to \<open>(x1, c1)\<close>, with \<open>t\<close> the position
  of the point relative to the segment, the value is \<open>(1 - t) * c0 + t * c1\<close>, inside
  the segment and outside it. The divisor is not zero where the nodes are strictly
  increasing, which every theorem below about a value of the interpolant assumes.
\<close>

definition lerp :: "real \<Rightarrow> real \<Rightarrow> real \<Rightarrow> real \<Rightarrow> real \<Rightarrow> real" where
  "lerp x0 c0 x1 c1 x = (let t = (x - x0) / (x1 - x0) in (1 - t) * c0 + t * c1)"

text \<open>
  Modelled from the spec: \<^verbatim>\<open>interp(x, y, u)\<close> of the \<^verbatim>\<open>interpolation\<close> package,
  the interpolant of the sample pairs \<open>(x\<^sub>i, y\<^sub>i)\<close> evaluated at \<open>u\<close>. The specification
  asks for linear interpolation between the bracketing sample pairs and, outside the
  sampled range, linear extrapolation along the nearest edge segment. The segment used
  is the first one whose right node is not below the point, or the last segment; on
  strictly increasing nodes this is the segment a binary search for the point finds.
  Fewer than two sample pairs have no segment: the specification gives no value, and
  the model reports \<open>IndexError\<close>.
\<close>

fun interp :: "real list \<Rightarrow> real list \<Rightarrow> real \<Rightarrow> error + real" where
  "interp (x0 # x1 # xs) (c0 # c1 # cs) x =
     (if xs = [] \<or> x \<le> x1 then Inr (lerp x0 c0 x1 c1 x)
      else interp (x1 # xs) (c1 # cs) x)"
| "interp xs cs x = Inl IndexError"

section \<open>The model class\<close>

text \<open>
  \<^verbatim>\<open>class OptimalGrowthModel\<close>: the attributes its constructor stores.
\<close>

record OptimalGrowthModel =
  \<beta> :: real
  \<mu> :: real
  s :: real
  f :: callable
  u :: callable
  f_prime :: callable
  u_prime :: callable
  u_prime_inv :: callable
  grid :: "real list"
  shocks :: "real list"

text \<open>
  \<^verbatim>\<open>OptimalGrowthModel.__init__\<close>. The arguments are stored as they are: the
  constructor has no check of its own. The grid is
  \<^verbatim>\<open>np.linspace(1e-5, grid_max, grid_size)\<close>, built first; the shocks are
  \<^verbatim>\<open>np.exp(\<mu> + s * np.random.randn(shock_size))\<close>. The generator is returned as the
  call leaves it. The notebook's defaults are \<open>\<beta> = 0.96\<close>, \<open>\<mu> = 0\<close>, \<open>s = 0.1\<close>,
  \<open>grid_max = 4\<close>, \<open>grid_size = 200\<close> and \<open>shock_size = 250\<close>.
\<close>

definition OptimalGrowthModel_init ::
  "callable \<Rightarrow> callable \<Rightarrow> callable \<Rightarrow> callable \<Rightarrow> callable \<Rightarrow>
   real \<Rightarrow> real \<Rightarrow> real \<Rightarrow> real \<Rightarrow> int \<Rightarrow> int \<Rightarrow> rng \<Rightarrow> (error + OptimalGrowthModel) \<times> rng" where
  "OptimalGrowthModel_init f0 f_prime0 u0 u_prime0 u_prime_inv0 \<beta>0 \<mu>0 s0
       grid_max grid_size shock_size g =
     (case np_linspace (1 / 100000) grid_max grid_size of
        Inl e \<Rightarrow> (Inl e, g)
      | Inr gr \<Rightarrow>
          (case np_random_randn shock_size g of
             (Inl e, g') \<Rightarrow> (Inl e, g')
           | (Inr Z, g') \<Rightarrow>
               (Inr \<lparr>\<beta> = \<beta>0, \<mu> = \<mu>0, s = s0, f = f0, u = u0, f_prime = f_prime0,
                     u_prime = u_prime0, u_prime_inv = u_prime_inv0, grid = gr,
                     shocks = map (\<lambda>z. exp (\<mu>0 + s0 * z)) Z\<rparr>, g')))"

section \<open>The endogenous grid operator\<close>

text \<open>
  The body of \<^verbatim>\<open>K\<close> in \<^verbatim>\<open>egm_operator_factory\<close>, for one grid point \<open>k\<close>.
  \<open>K_vals\<close> is the line
  \<^verbatim>\<open>vals = u_prime(\<sigma>(f(k) * shocks)) * f_prime(k) * shocks\<close>,
  the calls in Python's order of evaluation, and \<open>K_c\<close> is
  \<^verbatim>\<open>c[i] = u_prime_inv(\<beta> * np.mean(vals))\<close>.
\<close>

definition K_vals :: "OptimalGrowthModel \<Rightarrow> callable \<Rightarrow> real \<Rightarrow> error + real list" where
  "K_vals og \<sigma> k =
     (case f og k of
        Inl e \<Rightarrow> Inl e
      | Inr fk \<Rightarrow>
         (case map_err \<sigma> (map (\<lambda>z. fk * z) (shocks og)) of
            Inl e \<Rightarrow> Inl e
          | Inr cs \<Rightarrow>
             (case map_err (u_prime og) cs of
                Inl e \<Rightarrow> Inl e
              | Inr ups \<Rightarrow>
                 (case f_prime og k of
                    Inl e \<Rightarrow> Inl e
                  | Inr fpk \<Rightarrow> Inr (map2 (\<lambda>up z. up * fpk * z) ups (shocks og))))))"

definition K_c :: "OptimalGrowthModel \<Rightarrow> callable \<Rightarrow> real \<Rightarrow> error + real" where
  "K_c og \<sigma> k =
     (case K_vals og \<sigma> k of
        Inl e \<Rightarrow> Inl e
      | Inr vals \<Rightarrow> u_prime_inv og (\<beta> og * np_mean vals))"

text \<open>
  The loop over the grid and the line \<^verbatim>\<open>y = grid + c\<close>: the pair \<open>(y, c)\<close> of the
  endogenous income grid and the consumption values.
\<close>

definition K_points :: "OptimalGrowthModel \<Rightarrow> callable \<Rightarrow> error + (real list \<times> real list)" where
  "K_points og \<sigma> =
     (case map_err (K_c og \<sigma>) (grid og) of
        Inl e \<Rightarrow> Inl e
      | Inr c \<Rightarrow> Inr (map2 (+) (grid og) c, c))"


text \<open>
  \<^verbatim>\<open>K\<close> returns \<^verbatim>\<open>\<sigma>_new = lambda x: interp(y, c, x)\<close>. The notebook names this
  operator \<^verbatim>\<open>K_egm\<close> where it stands beside the other one.
\<close>

definition K_egm :: "OptimalGrowthModel \<Rightarrow> callable \<Rightarrow> error + callable" where
  "K_egm og \<sigma> =
     (case K_points og \<sigma> of
        Inl e \<Rightarrow> Inl e
      | Inr (y, c) \<Rightarrow> Inr (\<lambda>x. interp y c x))"

definition egm_operator_factory :: "OptimalGrowthModel \<Rightarrow> callable \<Rightarrow> error + callable" where
  "egm_operator_factory og = K_egm og"



section \<open>The exogenous grid operator\<close>

text \<open>
  \<^verbatim>\<open>brentq\<close> of \<^verbatim>\<open>quantecon.optimize\<close> is not part of the repository: the
  operator takes the root-finder as a parameter \<open>solver\<close>. Its arguments are the
  function, the two ends of the bracket and, optionally, an absolute tolerance, a
  relative tolerance and a bound on the number of iterations; an argument that is not
  passed is \<open>None\<close> and stands for the root-finder's default. It returns a tuple whose
  first component is the root.
\<close>

record results =
  root :: real
  function_calls :: nat
  iterations :: nat
  converged :: bool

type_synonym root_finder =
  "callable \<Rightarrow> real \<Rightarrow> real \<Rightarrow> real option \<Rightarrow> real option \<Rightarrow> nat option \<Rightarrow> error + results"

text \<open>
  \<^verbatim>\<open>objective(c, \<sigma>, y)\<close> in \<^verbatim>\<open>time_operator_factory\<close>; here \<open>\<sigma>\<close> is the array of
  the policy's values on the grid.
\<close>

definition objective :: "OptimalGrowthModel \<Rightarrow> real \<Rightarrow> real list \<Rightarrow> real \<Rightarrow> error + real" where
  "objective og c \<sigma> y =
     (case f og (y - c) of
        Inl e \<Rightarrow> Inl e
      | Inr fk \<Rightarrow>
         (case map_err (\<lambda>x. interp (grid og) \<sigma> x) (map (\<lambda>z. fk * z) (shocks og)) of
            Inl e \<Rightarrow> Inl e
          | Inr cs \<Rightarrow>
             (case map_err (u_prime og) cs of
                Inl e \<Rightarrow> Inl e
              | Inr ups \<Rightarrow>
                 (case f_prime og (y - c) of
                    Inl e \<Rightarrow> Inl e
                  | Inr fpk \<Rightarrow>
                     (case u_prime og c of
                        Inl e \<Rightarrow> Inl e
                      | Inr upc \<Rightarrow>
                          Inr (upc - \<beta> og
                                 * np_mean (map2 (\<lambda>up z. up * fpk * z) ups (shocks og))))))))"

text \<open>
  \<^verbatim>\<open>K\<close> in \<^verbatim>\<open>time_operator_factory\<close>, named \<^verbatim>\<open>K_time\<close> by the notebook:
  \<^verbatim>\<open>\<sigma>_new = np.empty_like(\<sigma>)\<close>, then for every index \<open>i\<close> of the grid
  \<^verbatim>\<open>\<sigma>_new[i] = brentq(objective, 1e-10, y-1e-10, args=(\<sigma>, y))[0]\<close> with
  \<^verbatim>\<open>y = grid[i]\<close>. The call passes no tolerance and no iteration bound. The output
  array has the length of \<open>\<sigma>\<close>, not of the grid, and nothing compares the two: \<open>mem\<close> is
  what the fresh array holds, and slots past the grid keep it. The loop is over
  \<^verbatim>\<open>prange(len(grid))\<close>; \<open>order\<close> is the order in which its iterations take effect.
  When an iteration raises, the model reports the exception of the first one in this
  order that does; the source does not say what a parallel loop does then, nor what a
  compiled loop does with a write past the end of an array shorter than the grid, and
  the theorems below are about applications in which neither happens.
\<close>

definition K_time ::
  "root_finder \<Rightarrow> OptimalGrowthModel \<Rightarrow> nat list \<Rightarrow> real list \<Rightarrow> (nat \<Rightarrow> real)
   \<Rightarrow> error + real list" where
  "K_time solver og order \<sigma> mem =
     fill_loop
       (\<lambda>i. case solver (\<lambda>c. objective og c \<sigma> (grid og ! i)) (1 / 10 ^ 10)
                   (grid og ! i - 1 / 10 ^ 10) None None None of
              Inl e \<Rightarrow> Inl e
            | Inr r \<Rightarrow> Inr (root r))
       order (np_empty_like \<sigma> mem)"

text \<open>
  \<^verbatim>\<open>time_operator_factory(og, parallel_flag=True)\<close> compiles \<^verbatim>\<open>K\<close> with
  \<^verbatim>\<open>parallel=parallel_flag\<close>: with the flag the iterations take effect in the order
  the run gives them, without it in the order of the indices.
\<close>

definition time_operator_factory ::
  "root_finder \<Rightarrow> OptimalGrowthModel \<Rightarrow> bool \<Rightarrow> nat list \<Rightarrow> real list \<Rightarrow> (nat \<Rightarrow> real)
   \<Rightarrow> error + real list" where
  "time_operator_factory solver og parallel_flag order =
     K_time solver og (if parallel_flag then order else [0..<length (grid og)])"

text \<open>
  Modelled from the spec: one bisection step after another on a bracket \<open>[lo, hi]\<close> at
  whose ends the function has opposite signs, \<open>flo\<close> being its value at \<open>lo\<close>. The
  search stops with the midpoint \<open>m\<close> of the bracket when the bracket is no wider than
  \<open>xtol + rtol * \<bar>m\<bar>\<close>, or when the function is \<open>0\<close> at \<open>m\<close>; it stops without
  convergence when \<open>n\<close>, the number of iterations it may still make, is \<open>0\<close>. Otherwise
  it keeps the half of the bracket at whose ends the signs differ. An exception of the
  function leaves the search.
\<close>

fun bisect ::
  "callable \<Rightarrow> real \<Rightarrow> real \<Rightarrow> nat \<Rightarrow> real \<Rightarrow> real \<Rightarrow> real \<Rightarrow> nat \<Rightarrow> error + results" where
  "bisect F xtol rtol n lo flo hi its =
     (let m = (lo + hi) / 2
      in if \<bar>hi - lo\<bar> \<le> xtol + rtol * \<bar>m\<bar>
         then Inr \<lparr>root = m, function_calls = its + 2, iterations = its, converged = True\<rparr>
         else (case n of
                 0 \<Rightarrow>
                   Inr \<lparr>root = m, function_calls = its + 2, iterations = its, converged = False\<rparr>
               | Suc n' \<Rightarrow>
                   (case F m of
                      Inl e \<Rightarrow> Inl e
                    | Inr fm \<Rightarrow>
                        if fm = 0
                        then Inr \<lparr>root = m, function_calls = its + 3, iterations = its + 1,
                                  converged = True\<rparr>
                        else if flo * fm < 0
                        then bisect F xtol rtol n' lo flo m (its + 1)
                        else bisect F xtol rtol n' m fm hi (its + 1))))"

text \<open>
  Modelled from the spec: \<^verbatim>\<open>brentq(f, a, b, xtol, rtol, maxiter)\<close>, the root-finder
  the notebook imports from \<^verbatim>\<open>quantecon.optimize\<close>, whose code is not part of the
  repository. The specification asks for a bracketing root-finder, Brent's method being
  its example, with an absolute and a relative tolerance of about \<open>1e-10\<close> and a bounded
  number of iterations, which fails with \<open>RootBracketError\<close> when the sign condition
  fails at the ends of the interval. The model is the bracketing part of Brent's method,
  bisection: it evaluates the function at both ends, raises \<open>RootBracketError\<close> when
  the two values have the same strict sign, returns an end at which the function is
  \<open>0\<close>, and bisects otherwise. The defaults are \<open>xtol = rtol = 1e-10\<close> and, the
  specification giving no number, \<open>maxiter = 100\<close>.
\<close>

definition brentq :: root_finder where
  "brentq F a b xtol rtol maxiter =
     (case F a of
        Inl e \<Rightarrow> Inl e
      | Inr fa \<Rightarrow>
          (case F b of
             Inl e \<Rightarrow> Inl e
           | Inr fb \<Rightarrow>
               if 0 < fa * fb then Inl RootBracketError
               else if fa = 0
               then Inr \<lparr>root = a, function_calls = 2, iterations = 0, converged = True\<rparr>
               else if fb = 0
               then Inr \<lparr>root = b, function_calls = 2, iterations = 0, converged = True\<rparr>
               else bisect F (case xtol of None \<Rightarrow> 1 / 10 ^ 10 | Some x \<Rightarrow> x)
                      (case rtol of None \<Rightarrow> 1 / 10 ^ 10 | Some x \<Rightarrow> x)
                      (case maxiter of None \<Rightarrow> 100 | Some n \<Rightarrow> n) a fa b 0))"

section \<open>The log utility and Cobb-Douglas test case\<close>

text \<open>
  The notebook's \<^verbatim>\<open>\<alpha> = 0.4\<close>, \<^verbatim>\<open>f(k) = k**\<alpha>\<close>,
  \<^verbatim>\<open>f_prime(k) = \<alpha> * k**(\<alpha> - 1)\<close>, \<^verbatim>\<open>u_prime(c) = 1 / c\<close> and
  \<^verbatim>\<open>c_star(y) = (1 - \<alpha> * \<beta>) * y\<close> with \<open>\<beta>\<close> read from the model. The names \<open>f\<close>,
  \<open>f_prime\<close> and \<open>u_prime\<close> are the record's fields here, so the functions carry a
  suffix. A power is meant for a non-negative base. At \<open>0\<close> the scalar call
  \<^verbatim>\<open>u_prime(0.0)\<close> of the compiled function raises \<^verbatim>\<open>ZeroDivisionError\<close>, which
  the model reports (on an array numpy returns \<^verbatim>\<open>inf\<close> there, which the reals
  do not have); no theorem below calls \<open>u_prime_log\<close> at \<open>0\<close>.
\<close>

definition \<alpha> :: real where
  "\<alpha> = 4 / 10"



definition u_prime_log :: callable where
  "u_prime_log c = (if c = 0 then Inl ZeroDivisionError else Inr (1 / c))"



section \<open>Assumptions on the model functions\<close>

text \<open>
  The economic assumptions speak about the callables on the positive reals: a callable
  is increasing, decreasing, non-increasing or positive there when it returns such
  values without raising. \<open>inverse_pos g h\<close> says that \<open>h\<close> inverts \<open>g\<close> on the positive
  reals: \<open>h m\<close> is a positive number that \<open>g\<close> maps to \<open>m\<close>.
\<close>

definition increasing_pos :: "callable \<Rightarrow> bool" where
  "increasing_pos g \<longleftrightarrow> (\<forall>x y. 0 < x \<and> x < y \<longrightarrow> (\<exists>a b. g x = Inr a \<and> g y = Inr b \<and> a < b))"

definition decreasing_pos :: "callable \<Rightarrow> bool" where
  "decreasing_pos g \<longleftrightarrow> (\<forall>x y. 0 < x \<and> x < y \<longrightarrow> (\<exists>a b. g x = Inr a \<and> g y = Inr b \<and> b < a))"

definition nonincreasing_pos :: "callable \<Rightarrow> bool" where
  "nonincreasing_pos g \<longleftrightarrow> (\<forall>x y. 0 < x \<and> x < y \<longrightarrow> (\<exists>a b. g x = Inr a \<and> g y = Inr b \<and> b \<le> a))"

definition positive_pos :: "callable \<Rightarrow> bool" where
  "positive_pos g \<longleftrightarrow> (\<forall>x. 0 < x \<longrightarrow> (\<exists>a. g x = Inr a \<and> 0 < a))"

definition inverse_pos :: "callable \<Rightarrow> callable \<Rightarrow> bool" where
  "inverse_pos g h \<longleftrightarrow> (\<forall>m. 0 < m \<longrightarrow> (\<exists>c. h m = Inr c \<and> 0 < c \<and> g c = Inr m))"

section \<open>The calls of one operator application\<close>

text \<open>
  What an application of the endogenous grid operator asks of the callables at the grid
  point \<open>k\<close>, call by call in the order of the source line: \<open>f k\<close>; the policy on
  \<open>f k * z\<^sub>j\<close> for every shock \<open>z\<^sub>j\<close>, in the order of the sample; \<open>u_prime\<close> on every
  value of the policy; \<open>f_prime k\<close>; and \<open>u_prime_inv\<close> on \<open>\<beta>\<close> times the mean of the
  products \<open>u_prime (\<sigma> (f k * z\<^sub>j)) * f_prime k * z\<^sub>j\<close>.

  \<open>point_returns og \<sigma> k v\<close>: every one of these calls returns, and \<open>v\<close> is the value
  that the call of \<open>u_prime_inv\<close> returns. \<open>point_raises og \<sigma> k e\<close>: one of the calls
  raises, and \<open>e\<close> is the exception of the first call that does.
  \<open>array_raises g xs e\<close> says the same of the call of \<open>g\<close> on the array \<open>xs\<close>, and
  \<open>array_returns g xs vs\<close> that it returns the array \<open>vs\<close>.
\<close>

definition array_returns :: "callable \<Rightarrow> real list \<Rightarrow> real list \<Rightarrow> bool" where
  "array_returns g xs vs \<longleftrightarrow>
     length vs = length xs \<and> (\<forall>j<length xs. g (xs ! j) = Inr (vs ! j))"

definition array_raises :: "callable \<Rightarrow> real list \<Rightarrow> error \<Rightarrow> bool" where
  "array_raises g xs e \<longleftrightarrow>
     (\<exists>j<length xs. g (xs ! j) = Inl e \<and> (\<forall>l<j. \<exists>v. g (xs ! l) = Inr v))"

definition euler_mean :: "OptimalGrowthModel \<Rightarrow> real list \<Rightarrow> real \<Rightarrow> real" where
  "euler_mean og ups fpk =
     (\<Sum>j<length (shocks og). ups ! j * fpk * shocks og ! j) / real (length (shocks og))"

definition point_returns :: "OptimalGrowthModel \<Rightarrow> callable \<Rightarrow> real \<Rightarrow> real \<Rightarrow> bool" where
  "point_returns og \<sigma> k v \<longleftrightarrow>
     (\<exists>fk cs ups fpk.
        f og k = Inr fk
        \<and> array_returns \<sigma> (map (\<lambda>z. fk * z) (shocks og)) cs
        \<and> array_returns (u_prime og) cs ups
        \<and> f_prime og k = Inr fpk
        \<and> u_prime_inv og (\<beta> og * euler_mean og ups fpk) = Inr v)"

definition point_raises :: "OptimalGrowthModel \<Rightarrow> callable \<Rightarrow> real \<Rightarrow> error \<Rightarrow> bool" where
  "point_raises og \<sigma> k e \<longleftrightarrow>
     f og k = Inl e
     \<or> (\<exists>fk. f og k = Inr fk
           \<and> (array_raises \<sigma> (map (\<lambda>z. fk * z) (shocks og)) e
                \<or> (\<exists>cs. array_returns \<sigma> (map (\<lambda>z. fk * z) (shocks og)) cs
                      \<and> (array_raises (u_prime og) cs e
                           \<or> (\<exists>ups. array_returns (u_prime og) cs ups
                                 \<and> (f_prime og k = Inl e
                                      \<or> (\<exists>fpk. f_prime og k = Inr fpk
                                            \<and> u_prime_inv og (\<beta> og * euler_mean og ups fpk)
                                                = Inl e)))))))"

section \<open>Further inputs\<close>

text \<open>
  Callables a user can hand to the model, and the notebook's initial policy
  \<^verbatim>\<open>\<sigma> = lambda x: x\<close>. They are the concrete inputs of the examples below:
  a linear and a cubic production function with their derivatives, the quadratic
  utility \<open>c - c\<^sup>2 / 2\<close> with marginal utility \<open>1 - c\<close>, which is its own inverse, as
  \<open>1 / c\<close> is for log utility, an inverse marginal utility that checks its domain, a
  policy that consumes \<open>x / (1 + x)\<close> of a non-negative income \<open>x\<close>, and a generator
  whose draws are all \<open>0\<close>. \<open>np_log\<close> is \<^verbatim>\<open>np.log\<close>, the notebook's utility; at a
  non-positive argument numpy returns \<^verbatim>\<open>-inf\<close> or \<^verbatim>\<open>nan\<close>, which the model reports
  as \<open>ValueError\<close>; no operator calls the utility.
\<close>

definition f_linear :: callable where
  "f_linear k = Inr (2 * k)"

definition f_prime_linear :: callable where
  "f_prime_linear k = Inr 2"

definition f_cubic :: callable where
  "f_cubic k = Inr (k ^ 3)"

definition f_prime_cubic :: callable where
  "f_prime_cubic k = Inr (3 * k ^ 2)"

definition np_log :: callable where
  "np_log x = (if 0 < x then Inr (ln x) else Inl ValueError)"

definition u_quadratic :: callable where
  "u_quadratic c = Inr (c - c ^ 2 / 2)"

definition u_prime_quadratic :: callable where
  "u_prime_quadratic c = Inr (1 - c)"

definition u_prime_inv_checked :: callable where
  "u_prime_inv_checked m = (if m \<le> 0 then Inl DomainError else Inr (1 / m))"

definition identity_policy :: callable where
  "identity_policy x = Inr x"

definition saturating_policy :: callable where
  "saturating_policy x = Inr (if 0 \<le> x then x / (1 + x) else x)"

definition zero_draws :: rng where
  "zero_draws = (\<lambda>i. 0)"


text \<open>
  Models for the examples, each as the constructor returns it for a generator whose
  draws are all \<open>0\<close>, with \<open>\<mu> = 0\<close>, \<open>s = 0\<close> and \<open>shock_size = 1\<close>, so that the
  shock sample is \<open>[1]\<close>.
\<close>

definition og_quadratic :: OptimalGrowthModel where
  "og_quadratic =
     \<lparr>\<beta> = 96 / 100, \<mu> = 0, s = 0, f = f_linear, u = u_quadratic, f_prime = f_prime_linear,
      u_prime = u_prime_quadratic, u_prime_inv = u_prime_quadratic,
      grid = [1 / 100000, 4], shocks = [1]\<rparr>"

definition og_checked :: OptimalGrowthModel where
  "og_checked = og_quadratic\<lparr>u_prime_inv := u_prime_inv_checked\<rparr>"

definition og_half :: OptimalGrowthModel where
  "og_half = og_quadratic\<lparr>\<beta> := 1 / 2\<rparr>"

definition og_log_linear :: OptimalGrowthModel where
  "og_log_linear =
     \<lparr>\<beta> = 96 / 100, \<mu> = 0, s = 0, f = f_linear, u = np_log, f_prime = f_prime_linear,
      u_prime = u_prime_log, u_prime_inv = u_prime_log,
      grid = [1 / 100000, 4], shocks = [1]\<rparr>"

definition og_cubic :: OptimalGrowthModel where
  "og_cubic =
     \<lparr>\<beta> = 1 / 20, \<mu> = 0, s = 0, f = f_cubic, u = np_log, f_prime = f_prime_cubic,
      u_prime = u_prime_log, u_prime_inv = u_prime_log,
      grid = [1 / 100000, 200001 / 200000, 2], shocks = [1]\<rparr>"

section \<open>Arrays\<close>

lemma map_err_Inr_iff:
  "map_err g xs = Inr vs \<longleftrightarrow> length vs = length xs \<and> (\<forall>i<length xs. g (xs ! i) = Inr (vs ! i))"
proof (induction xs arbitrary: vs)
  case Nil
  then show ?case by auto
next
  case (Cons x xs)
  show ?case
  proof (cases vs)
    case Nil
    then show ?thesis by (auto split: sum.splits)
  next
    case (Cons v vs')
    then show ?thesis
      using Cons.IH [of vs']
      by (auto split: sum.splits simp: nth_Cons less_Suc_eq_0_disj split: nat.splits)
  qed
qed

lemma map_err_map:
  "(\<And>x. x \<in> set xs \<Longrightarrow> g x = Inr (h x)) \<Longrightarrow> map_err g xs = Inr (map h xs)"
  by (induction xs) auto

lemma map_err_Inl_iff:
  "map_err g xs = Inl e \<longleftrightarrow>
     (\<exists>i<length xs. g (xs ! i) = Inl e \<and> (\<forall>j<i. \<not> isl (g (xs ! j))))"
proof (induction xs)
  case Nil
  then show ?case by simp
next
  case (Cons x xs)
  show ?case
  proof (cases "g x")
    case (Inl e')
    show ?thesis
    proof
      assume "map_err g (x # xs) = Inl e"
      with Inl have "e' = e" by simp
      with Inl show "\<exists>i<length (x # xs). g ((x # xs) ! i) = Inl e \<and> (\<forall>j<i. \<not> isl (g ((x # xs) ! j)))"
        by (intro exI [of _ 0]) simp
    next
      assume "\<exists>i<length (x # xs). g ((x # xs) ! i) = Inl e \<and> (\<forall>j<i. \<not> isl (g ((x # xs) ! j)))"
      then obtain i where i: "g ((x # xs) ! i) = Inl e" "\<forall>j<i. \<not> isl (g ((x # xs) ! j))"
        by blast
      have "i = 0"
      proof (rule ccontr)
        assume "i \<noteq> 0"
        then have "\<not> isl (g ((x # xs) ! 0))" using i(2) by blast
        with Inl show False by simp
      qed
      with i(1) Inl show "map_err g (x # xs) = Inl e" by simp
    qed
  next
    case (Inr v)
    have "map_err g (x # xs) = Inl e \<longleftrightarrow> map_err g xs = Inl e"
      using Inr by (simp split: sum.splits)
    also have "\<dots> \<longleftrightarrow> (\<exists>i<length xs. g (xs ! i) = Inl e \<and> (\<forall>j<i. \<not> isl (g (xs ! j))))"
      by (rule Cons.IH)
    also have "\<dots> \<longleftrightarrow> (\<exists>i<length (x # xs). g ((x # xs) ! i) = Inl e
        \<and> (\<forall>j<i. \<not> isl (g ((x # xs) ! j))))"
    proof
      assume "\<exists>i<length xs. g (xs ! i) = Inl e \<and> (\<forall>j<i. \<not> isl (g (xs ! j)))"
      then obtain i where i: "i < length xs" "g (xs ! i) = Inl e" "\<forall>j<i. \<not> isl (g (xs ! j))"
        by blast
      have "\<forall>j<Suc i. \<not> isl (g ((x # xs) ! j))"
        using i(3) Inr by (auto simp: nth_Cons split: nat.splits)
      with i(1,2) show "\<exists>i<length (x # xs). g ((x # xs) ! i) = Inl e
          \<and> (\<forall>j<i. \<not> isl (g ((x # xs) ! j)))"
        by (intro exI [of _ "Suc i"]) simp
    next
      assume "\<exists>i<length (x # xs). g ((x # xs) ! i) = Inl e \<and> (\<forall>j<i. \<not> isl (g ((x # xs) ! j)))"
      then obtain i where i: "i < length (x # xs)" "g ((x # xs) ! i) = Inl e"
          "\<forall>j<i. \<not> isl (g ((x # xs) ! j))"
        by blast
      from i(2) Inr obtain i' where i': "i = Suc i'"
        by (cases i) auto
      have "\<forall>j<i'. \<not> isl (g (xs ! j))"
      proof (intro allI impI)
        fix j assume "j < i'"
        then have "Suc j < i" using i' by simp
        with i(3) have "\<not> isl (g ((x # xs) ! Suc j))" by blast
        then show "\<not> isl (g (xs ! j))" by simp
      qed
      with i i' show "\<exists>i<length xs. g (xs ! i) = Inl e \<and> (\<forall>j<i. \<not> isl (g (xs ! j)))"
        by (intro exI [of _ i']) simp
    qed
    finally show ?thesis .
  qed
qed

lemma map_err_cong:
  "(\<And>x. x \<in> set xs \<Longrightarrow> g x = h x) \<Longrightarrow> map_err g xs = map_err h xs"
  by (induction xs) (auto split: sum.splits)


lemma not_isl_iff: "\<not> isl x \<longleftrightarrow> (\<exists>v. x = Inr v)"
  by (cases x) simp_all

lemma array_returns_iff: "map_err g xs = Inr vs \<longleftrightarrow> array_returns g xs vs"
  by (simp add: map_err_Inr_iff array_returns_def)

lemma array_raises_iff: "map_err g xs = Inl e \<longleftrightarrow> array_raises g xs e"
  by (simp add: map_err_Inl_iff array_raises_def not_isl_iff)

lemma euler_mean_eq:
  assumes "length ups = length (shocks og)"
  shows "np_mean (map2 (\<lambda>up z. up * fpk * z) ups (shocks og)) = euler_mean og ups fpk"
proof -
  have "sum_list (map2 (\<lambda>up z. up * fpk * z) ups (shocks og))
      = (\<Sum>j<length (shocks og). ups ! j * fpk * shocks og ! j)"
    using assms by (simp add: sum_list_sum_nth atLeast0LessThan)
  then show ?thesis
    using assms by (simp add: np_mean_def euler_mean_def)
qed

lemma fill_loop_in_range:
  assumes "\<forall>i\<in>set order. i < length out"
  shows "fill_loop body order out =
     (case map_err body order of
        Inl e \<Rightarrow> Inl e
      | Inr vs \<Rightarrow>
          Inr (map (\<lambda>j. if j \<in> set order then projr (body j) else out ! j) [0..<length out]))"
  using assms
proof (induction order arbitrary: out)
  case Nil
  show ?case by (simp add: map_nth)
next
  case (Cons i order)
  show ?case
  proof (cases "body i")
    case (Inl e)
    then show ?thesis by simp
  next
    case (Inr v)
    from Cons.prems have i: "i < length out" and rest: "\<forall>l\<in>set order. l < length (out[i := v])"
      by simp_all
    show ?thesis
    proof (cases "map_err body order")
      case (Inl e)
      with Inr i Cons.IH [OF rest] show ?thesis by simp
    next
      case vs: (Inr vs)
      have "map (\<lambda>j. if j \<in> set order then projr (body j) else out[i := v] ! j) [0..<length out]
          = map (\<lambda>j. if j \<in> set (i # order) then projr (body j) else out ! j) [0..<length out]"
        by (rule map_cong [OF refl]) (use Inr in \<open>auto simp: nth_list_update\<close>)
      with Inr vs i Cons.IH [OF rest] show ?thesis by simp
    qed
  qed
qed

lemma fill_loop_Inr:
  assumes "\<forall>i\<in>set order. i < length out" and "fill_loop body order out = Inr res"
  shows "length res = length out"
    and "\<forall>j\<in>set order. body j = Inr (res ! j)"
    and "\<forall>j<length out. j \<notin> set order \<longrightarrow> res ! j = out ! j"
proof -
  from assms(2) obtain vs where vs: "map_err body order = Inr vs"
    and res: "res = map (\<lambda>j. if j \<in> set order then projr (body j) else out ! j) [0..<length out]"
    by (auto simp: fill_loop_in_range [OF assms(1)] split: sum.splits)
  show "length res = length out" by (simp add: res)
  show "\<forall>j<length out. j \<notin> set order \<longrightarrow> res ! j = out ! j" by (simp add: res)
  show "\<forall>j\<in>set order. body j = Inr (res ! j)"
  proof
    fix j assume j: "j \<in> set order"
    then obtain l where l: "l < length order" "order ! l = j"
      by (auto simp: in_set_conv_nth)
    from vs l have "body j = Inr (vs ! l)"
      by (auto simp: map_err_Inr_iff)
    moreover have "j < length out" using assms(1) j by blast
    ultimately show "body j = Inr (res ! j)" using j by (simp add: res)
  qed
qed




lemma np_mean_const:
  "xs \<noteq> [] \<Longrightarrow> np_mean (map (\<lambda>x. a) xs) = a"
  by (simp add: np_mean_def sum_list_triv)

lemma np_mean_strict_mono:
  assumes "xs \<noteq> []" and "\<And>x. x \<in> set xs \<Longrightarrow> g x < h x"
  shows "np_mean (map g xs) < np_mean (map h xs)"
proof -
  have "sum_list (map g xs) < sum_list (map h xs)"
    by (rule sum_list_strict_mono [OF assms])
  moreover have "0 < real (length xs)" using assms(1) by simp
  ultimately show ?thesis
    by (simp add: np_mean_def divide_strict_right_mono)
qed

lemma np_mean_pos:
  assumes "xs \<noteq> []" and "\<And>x. x \<in> set xs \<Longrightarrow> 0 < g x"
  shows "0 < np_mean (map g xs)"
proof -
  have "np_mean (map (\<lambda>x. 0) xs) < np_mean (map g xs)"
    by (rule np_mean_strict_mono [OF assms])
  then show ?thesis by (simp add: np_mean_const [OF assms(1)])
qed


section \<open>The constructor and its grid\<close>

lemma np_linspace_points:
  assumes "2 \<le> num"
  shows "np_linspace start stop num
    = Inr (map (\<lambda>i. real i * ((stop - start) / real (nat num - 1)) + start) [0..<nat num])"
  using assms by (simp add: np_linspace_def)


lemma np_linspace_step:
  assumes "2 \<le> num"
  obtains d where "np_linspace start stop num = Inr (map (\<lambda>i. real i * d + start) [0..<nat num])"
    and "real (nat num - 1) * d = stop - start" and "start < stop \<Longrightarrow> 0 < d"
proof -
  define d where "d = (stop - start) / real (nat num - 1)"
  have pos: "0 < real (nat num - 1)" using assms by simp
  have 1: "np_linspace start stop num = Inr (map (\<lambda>i. real i * d + start) [0..<nat num])"
    unfolding d_def by (rule np_linspace_points [OF assms])
  have cancel: "m * ((stop - start) / m) = stop - start" if "0 < m" for m :: real
    using that by simp
  have 2: "real (nat num - 1) * d = stop - start"
    unfolding d_def by (rule cancel [OF pos])
  have 3: "0 < d" if "start < stop"
    unfolding d_def using pos that by (simp only: divide_pos_pos diff_gt_0_iff_gt)
  from 1 2 3 show thesis by (rule that)
qed

lemma np_linspace_bounds:
  assumes "2 \<le> num" and "start < stop" and "np_linspace start stop num = Inr gr"
    and "k \<in> set gr"
  shows "start \<le> k \<and> k \<le> stop"
proof -
  obtain d where gr': "np_linspace start stop num = Inr (map (\<lambda>i. real i * d + start) [0..<nat num])"
    and span: "real (nat num - 1) * d = stop - start" and d: "0 < d"
    using np_linspace_step [OF assms(1), of start stop] assms(2) by blast
  from gr' assms(3) have gr: "gr = map (\<lambda>i. real i * d + start) [0..<nat num]"
    by simp
  with assms(4) obtain i where i: "i < nat num" "k = real i * d + start"
    by auto
  have "real i \<le> real (nat num - 1)" using i(1) by linarith
  then have "real i * d \<le> real (nat num - 1) * d"
    using d by (rule mult_right_mono [OF _ less_imp_le])
  with span have "k \<le> stop" using i(2) by linarith
  moreover have "0 \<le> real i * d"
    using d by (intro mult_nonneg_nonneg) simp_all
  then have "start \<le> k" using i(2) by linarith
  ultimately show ?thesis by blast
qed


lemma init_Inr:
  assumes "0 \<le> grid_size" and "0 \<le> shock_size"
  obtains gr where "np_linspace (1 / 100000) grid_max grid_size = Inr gr"
    and "OptimalGrowthModel_init f0 f_prime0 u0 u_prime0 u_prime_inv0 \<beta>0 \<mu>0 s0
           grid_max grid_size shock_size g
         = (Inr \<lparr>\<beta> = \<beta>0, \<mu> = \<mu>0, s = s0, f = f0, u = u0, f_prime = f_prime0,
                  u_prime = u_prime0, u_prime_inv = u_prime_inv0, grid = gr,
                  shocks = map (\<lambda>i. exp (\<mu>0 + s0 * g i)) [0..<nat shock_size]\<rparr>,
            (\<lambda>i. g (i + nat shock_size)))"
proof -
  have "\<exists>gr. np_linspace (1 / 100000) grid_max grid_size = Inr gr"
    using assms(1) by (simp add: np_linspace_def)
  then obtain gr where gr: "np_linspace (1 / 100000) grid_max grid_size = Inr gr" ..
  moreover have "OptimalGrowthModel_init f0 f_prime0 u0 u_prime0 u_prime_inv0 \<beta>0 \<mu>0 s0
           grid_max grid_size shock_size g
         = (Inr \<lparr>\<beta> = \<beta>0, \<mu> = \<mu>0, s = s0, f = f0, u = u0, f_prime = f_prime0,
                  u_prime = u_prime0, u_prime_inv = u_prime_inv0, grid = gr,
                  shocks = map (\<lambda>i. exp (\<mu>0 + s0 * g i)) [0..<nat shock_size]\<rparr>,
            (\<lambda>i. g (i + nat shock_size)))"
    using assms(2) gr by (simp add: OptimalGrowthModel_init_def np_random_randn_def comp_def)
  ultimately show thesis by (rule that)
qed


section \<open>Interpolation\<close>

lemma lerp_left: "lerp x0 c0 x1 c1 x0 = c0"
  by (simp add: lerp_def)

lemma lerp_right: "x0 \<noteq> x1 \<Longrightarrow> lerp x0 c0 x1 c1 x1 = c1"
  by (simp add: lerp_def)


lemma interp_segment:
  assumes "sorted_wrt (<) ys" and "length cs = length ys" and "i + 1 < length ys"
    and "i = 0 \<or> ys ! i < x" and "x \<le> ys ! (i + 1) \<or> i + 2 = length ys"
  shows "interp ys cs x = Inr (lerp (ys ! i) (cs ! i) (ys ! (i + 1)) (cs ! (i + 1)) x)"
  using assms
proof (induction ys cs x arbitrary: i rule: interp.induct)
  case (1 x0 x1 xs c0 c1 cs x)
  show ?case
  proof (cases i)
    case 0
    with "1.prems"(5) have "xs = [] \<or> x \<le> x1" by auto
    with 0 show ?thesis by simp
  next
    case (Suc j)
    with "1.prems"(3) have ne: "xs \<noteq> []" by auto
    from Suc "1.prems"(4) have lt: "(x0 # x1 # xs) ! Suc j < x" by simp
    have "x1 \<le> (x1 # xs) ! j"
    proof (cases j)
      case 0
      then show ?thesis by simp
    next
      case (Suc j')
      with \<open>i = Suc j\<close> "1.prems"(3) have "j' < length xs" by simp
      then have "xs ! j' \<in> set xs" by simp
      with "1.prems"(1) have "x1 < xs ! j'" by auto
      with Suc show ?thesis by simp
    qed
    with lt have nle: "\<not> x \<le> x1" by simp
    have "interp (x1 # xs) (c1 # cs) x
        = Inr (lerp ((x1 # xs) ! j) ((c1 # cs) ! j) ((x1 # xs) ! (j + 1)) ((c1 # cs) ! (j + 1)) x)"
    proof (rule "1.IH")
      show "\<not> (xs = [] \<or> x \<le> x1)" using ne nle by simp
      show "sorted_wrt (<) (x1 # xs)" using "1.prems"(1) by simp
      show "length (c1 # cs) = length (x1 # xs)" using "1.prems"(2) by simp
      show "j + 1 < length (x1 # xs)" using "1.prems"(3) Suc by simp
      show "j = 0 \<or> (x1 # xs) ! j < x" using lt by simp
      show "x \<le> (x1 # xs) ! (j + 1) \<or> j + 2 = length (x1 # xs)"
        using "1.prems"(5) Suc by simp
    qed
    with ne nle Suc show ?thesis by simp
  qed
qed simp_all

lemma sorted_wrt_nth_less:
  "sorted_wrt (<) (ys :: real list) \<Longrightarrow> i < j \<Longrightarrow> j < length ys \<Longrightarrow> ys ! i < ys ! j"
  by (simp add: sorted_wrt_iff_nth_less)

lemma interp_node:
  assumes "sorted_wrt (<) ys" and "length cs = length ys" and "2 \<le> length ys"
    and "i < length ys"
  shows "interp ys cs (ys ! i) = Inr (cs ! i)"
proof (cases i)
  case 0
  have "interp ys cs (ys ! 0) = Inr (lerp (ys ! 0) (cs ! 0) (ys ! (0 + 1)) (cs ! (0 + 1)) (ys ! 0))"
    using assms(1-3) sorted_wrt_nth_less [OF assms(1), of 0 1]
    by (intro interp_segment) auto
  with 0 show ?thesis by (simp add: lerp_left)
next
  case (Suc j)
  have lt: "ys ! j < ys ! Suc j"
    using sorted_wrt_nth_less [OF assms(1), of j "Suc j"] assms(4) Suc by simp
  have "interp ys cs (ys ! Suc j)
      = Inr (lerp (ys ! j) (cs ! j) (ys ! (j + 1)) (cs ! (j + 1)) (ys ! Suc j))"
    using assms(1,2,4) Suc lt by (intro interp_segment) auto
  with Suc lt show ?thesis by (simp add: lerp_right)
qed

lemma interp_between:
  assumes "sorted_wrt (<) ys" and "length cs = length ys" and "i + 1 < length ys"
    and "ys ! i \<le> x" and "x \<le> ys ! (i + 1)"
  shows "interp ys cs x = Inr (lerp (ys ! i) (cs ! i) (ys ! (i + 1)) (cs ! (i + 1)) x)"
proof (cases "i = 0 \<or> ys ! i < x")
  case True
  then show ?thesis
    using assms by (intro interp_segment) auto
next
  case False
  with assms(4) have x: "x = ys ! i" by simp
  have "interp ys cs (ys ! i) = Inr (cs ! i)"
    using assms(1-3) by (intro interp_node) auto
  with x show ?thesis by (simp add: lerp_left)
qed

lemma interp_below:
  assumes "sorted_wrt (<) ys" and "length cs = length ys" and "2 \<le> length ys"
    and "x < ys ! 0"
  shows "interp ys cs x = Inr (lerp (ys ! 0) (cs ! 0) (ys ! 1) (cs ! 1) x)"
proof -
  have "ys ! 0 < ys ! 1"
    using sorted_wrt_nth_less [OF assms(1), of 0 1] assms(3) by simp
  with assms(4) have "x \<le> ys ! (0 + 1)" by simp
  then have "interp ys cs x = Inr (lerp (ys ! 0) (cs ! 0) (ys ! (0 + 1)) (cs ! (0 + 1)) x)"
    using assms(1-3) by (intro interp_segment) auto
  then show ?thesis by simp
qed

lemma interp_above:
  assumes "sorted_wrt (<) ys" and "length cs = length ys" and "2 \<le> length ys"
    and "last ys < x"
  shows "interp ys cs x = Inr (lerp (ys ! (length ys - 2)) (cs ! (length ys - 2))
           (ys ! (length ys - 1)) (cs ! (length ys - 1)) x)"
proof -
  let ?i = "length ys - 2"
  have ne: "ys \<noteq> []" using assms(3) by auto
  have l: "last ys = ys ! (?i + 1)"
    using assms(3) by (simp add: last_conv_nth [OF ne] Suc_diff_Suc numeral_2_eq_2)
  have "ys ! ?i < ys ! (?i + 1)"
    using sorted_wrt_nth_less [OF assms(1), of ?i "?i + 1"] assms(3) by simp
  with l assms(4) have "ys ! ?i < x" by simp
  then have "interp ys cs x = Inr (lerp (ys ! ?i) (cs ! ?i) (ys ! (?i + 1)) (cs ! (?i + 1)) x)"
    using assms(1-3) by (intro interp_segment) auto
  moreover have "?i + 1 = length ys - 1" using assms(3) by simp
  ultimately show ?thesis by simp
qed




section \<open>The operators on one grid point\<close>

lemma K_vals_eval:
  assumes "f og k = Inr fk"
    and "\<And>z. z \<in> set (shocks og) \<Longrightarrow> \<sigma> (fk * z) = Inr (S (fk * z))"
    and "\<And>z. z \<in> set (shocks og) \<Longrightarrow> u_prime og (S (fk * z)) = Inr (UP (S (fk * z)))"
    and "f_prime og k = Inr fpk"
  shows "K_vals og \<sigma> k = Inr (map (\<lambda>z. UP (S (fk * z)) * fpk * z) (shocks og))"
proof -
  have 1: "map_err \<sigma> (map (\<lambda>z. fk * z) (shocks og)) = Inr (map S (map (\<lambda>z. fk * z) (shocks og)))"
    by (rule map_err_map) (use assms(2) in auto)
  have 2: "map_err (u_prime og) (map S (map (\<lambda>z. fk * z) (shocks og)))
      = Inr (map UP (map S (map (\<lambda>z. fk * z) (shocks og))))"
    by (rule map_err_map) (use assms(3) in auto)
  have 3: "map2 (\<lambda>up z. up * fpk * z) (map UP (map S (map (\<lambda>z. fk * z) (shocks og)))) (shocks og)
      = map (\<lambda>z. UP (S (fk * z)) * fpk * z) (shocks og)"
    by (induction "shocks og") (auto simp: zip_map1 zip_same_conv_map)
  show ?thesis
    unfolding K_vals_def by (simp only: assms(1,4) 1 2 3 sum.case)
qed

lemma K_vals_policy_cong:
  assumes "f og k = Inr fk" and "\<And>z. z \<in> set (shocks og) \<Longrightarrow> \<sigma> (fk * z) = \<sigma>' (fk * z)"
  shows "K_vals og \<sigma> k = K_vals og \<sigma>' k"
proof -
  have "map_err \<sigma> (map (\<lambda>z. fk * z) (shocks og)) = map_err \<sigma>' (map (\<lambda>z. fk * z) (shocks og))"
    by (rule map_err_cong) (use assms(2) in auto)
  then show ?thesis
    by (simp add: K_vals_def assms(1))
qed

lemma K_c_Inl_iff:
  "K_c og \<sigma> k = Inl e \<longleftrightarrow>
     K_vals og \<sigma> k = Inl e
     \<or> (\<exists>vals. K_vals og \<sigma> k = Inr vals \<and> u_prime_inv og (\<beta> og * np_mean vals) = Inl e)"
  by (cases "K_vals og \<sigma> k") (simp_all add: K_c_def)

lemma K_c_Inr_iff:
  "K_c og \<sigma> k = Inr v \<longleftrightarrow>
     (\<exists>vals. K_vals og \<sigma> k = Inr vals \<and> u_prime_inv og (\<beta> og * np_mean vals) = Inr v)"
  by (cases "K_vals og \<sigma> k") (simp_all add: K_c_def)

lemma K_points_Inr_iff:
  "K_points og \<sigma> = Inr (y, c) \<longleftrightarrow>
     map_err (K_c og \<sigma>) (grid og) = Inr c \<and> y = map2 (+) (grid og) c"
  by (cases "map_err (K_c og \<sigma>) (grid og)") (auto simp: K_points_def)

lemma K_points_Inl_iff:
  "K_points og \<sigma> = Inl e \<longleftrightarrow> map_err (K_c og \<sigma>) (grid og) = Inl e"
  by (cases "map_err (K_c og \<sigma>) (grid og)") (auto simp: K_points_def)

lemma K_egm_Inl_iff:
  "K_egm og \<sigma> = Inl e \<longleftrightarrow> K_points og \<sigma> = Inl e"
  by (cases "K_points og \<sigma>") (auto simp: K_egm_def)

lemma K_egm_Inr:
  "K_points og \<sigma> = Inr (y, c) \<Longrightarrow> K_egm og \<sigma> = Inr (\<lambda>x. interp y c x)"
  by (simp add: K_egm_def)

lemma K_points_lengths:
  assumes "K_points og \<sigma> = Inr (y, c)"
  shows "length c = length (grid og)" and "length y = length (grid og)"
    and "i < length (grid og) \<Longrightarrow> y ! i = grid og ! i + c ! i"
proof -
  from assms have c: "map_err (K_c og \<sigma>) (grid og) = Inr c" and y: "y = map2 (+) (grid og) c"
    by (simp_all add: K_points_Inr_iff)
  from c show l: "length c = length (grid og)"
    by (simp add: map_err_Inr_iff)
  with y show "length y = length (grid og)" by simp
  from y l show "i < length (grid og) \<Longrightarrow> y ! i = grid og ! i + c ! i" by simp
qed

lemma K_c_returns_iff: "K_c og \<sigma> k = Inr v \<longleftrightarrow> point_returns og \<sigma> k v"
proof
  assume r: "K_c og \<sigma> k = Inr v"
  then obtain vals where vals: "K_vals og \<sigma> k = Inr vals"
    and v: "u_prime_inv og (\<beta> og * np_mean vals) = Inr v"
    by (auto simp: K_c_Inr_iff)
  from vals obtain fk cs ups fpk where c: "f og k = Inr fk"
    "map_err \<sigma> (map (\<lambda>z. fk * z) (shocks og)) = Inr cs" "map_err (u_prime og) cs = Inr ups"
    "f_prime og k = Inr fpk" "vals = map2 (\<lambda>up z. up * fpk * z) ups (shocks og)"
    by (auto simp: K_vals_def split: sum.splits)
  have len: "length ups = length (shocks og)"
    using c(2,3) by (simp add: map_err_Inr_iff)
  from v have "u_prime_inv og (\<beta> og * euler_mean og ups fpk) = Inr v"
    by (simp add: c(5) euler_mean_eq [OF len])
  with c(1-4) show "point_returns og \<sigma> k v"
    unfolding point_returns_def array_returns_iff by blast
next
  assume "point_returns og \<sigma> k v"
  then obtain fk cs ups fpk where c: "f og k = Inr fk"
    "map_err \<sigma> (map (\<lambda>z. fk * z) (shocks og)) = Inr cs" "map_err (u_prime og) cs = Inr ups"
    "f_prime og k = Inr fpk" "u_prime_inv og (\<beta> og * euler_mean og ups fpk) = Inr v"
    unfolding point_returns_def array_returns_iff [symmetric] by blast
  have len: "length ups = length (shocks og)"
    using c(2,3) by (simp add: map_err_Inr_iff)
  show "K_c og \<sigma> k = Inr v"
    by (simp add: K_c_def K_vals_def c(1-4) euler_mean_eq [OF len] c(5))
qed

lemma K_c_raises_iff: "K_c og \<sigma> k = Inl e \<longleftrightarrow> point_raises og \<sigma> k e"
proof (cases "f og k")
  case (Inl e')
  then show ?thesis
    by (auto simp: K_c_def K_vals_def point_raises_def)
next
  case fk: (Inr fk)
  show ?thesis
  proof (cases "map_err \<sigma> (map (\<lambda>z. fk * z) (shocks og))")
    case (Inl e')
    then have "\<And>cs. \<not> array_returns \<sigma> (map (\<lambda>z. fk * z) (shocks og)) cs"
      by (simp add: array_returns_iff [symmetric])
    with Inl fk show ?thesis
      by (auto simp: K_c_def K_vals_def point_raises_def array_raises_iff [symmetric])
  next
    case cs: (Inr cs)
    then have cs': "array_returns \<sigma> (map (\<lambda>z. fk * z) (shocks og)) cs' \<longleftrightarrow> cs' = cs" for cs'
      by (auto simp: array_returns_iff [symmetric])
    from cs have ncs: "\<not> array_raises \<sigma> (map (\<lambda>z. fk * z) (shocks og)) e"
      by (simp add: array_raises_iff [symmetric])
    show ?thesis
    proof (cases "map_err (u_prime og) cs")
      case (Inl e')
      then have "\<And>ups. \<not> array_returns (u_prime og) cs ups"
        by (simp add: array_returns_iff [symmetric])
      with Inl fk cs cs' ncs show ?thesis
        by (auto simp: K_c_def K_vals_def point_raises_def array_raises_iff [symmetric])
    next
      case ups: (Inr ups)
      then have ups': "array_returns (u_prime og) cs ups' \<longleftrightarrow> ups' = ups" for ups'
        by (auto simp: array_returns_iff [symmetric])
      from ups have nups: "\<not> array_raises (u_prime og) cs e"
        by (simp add: array_raises_iff [symmetric])
      have len: "length ups = length (shocks og)"
        using cs ups by (simp add: map_err_Inr_iff)
      show ?thesis
      proof (cases "f_prime og k")
        case (Inl e')
        with fk cs ups cs' ups' ncs nups show ?thesis
          by (auto simp: K_c_def K_vals_def point_raises_def)
      next
        case (Inr fpk)
        with fk cs ups cs' ups' ncs nups show ?thesis
          by (auto simp: K_c_def K_vals_def point_raises_def euler_mean_eq [OF len])
      qed
    qed
  qed
qed


lemma objective_formula:
  assumes "f og (y - c) = Inr fk"
    and "array_returns (interp (grid og) \<sigma>) (map (\<lambda>z. fk * z) (shocks og)) cs"
    and "array_returns (u_prime og) cs ups"
    and "f_prime og (y - c) = Inr fpk" and "u_prime og c = Inr upc"
  shows "objective og c \<sigma> y = Inr (upc - \<beta> og * euler_mean og ups fpk)"
proof -
  have len: "length ups = length (shocks og)"
    using assms(2,3) by (simp add: array_returns_def)
  have 1: "map_err (\<lambda>x. interp (grid og) \<sigma> x) (map (\<lambda>z. fk * z) (shocks og)) = Inr cs"
    using assms(2) by (simp add: array_returns_iff)
  have 2: "map_err (u_prime og) cs = Inr ups"
    using assms(3) by (simp add: array_returns_iff)
  show ?thesis
    unfolding objective_def
    by (simp only: assms(1,4,5) 1 2 sum.case euler_mean_eq [OF len])
qed

lemma K_time_slots:
  assumes "set order = {0..<length (grid og)}" and "length (grid og) \<le> length \<sigma>"
    and "K_time solver og order \<sigma> mem = Inr out"
  shows "length out = length \<sigma>"
    and "\<forall>i<length (grid og). \<exists>r.
            solver (\<lambda>c. objective og c \<sigma> (grid og ! i)) (1 / 10 ^ 10)
              (grid og ! i - 1 / 10 ^ 10) None None None = Inr r \<and> out ! i = root r"
    and "\<forall>j<length \<sigma>. length (grid og) \<le> j \<longrightarrow> out ! j = mem j"
proof -
  have len: "length (np_empty_like \<sigma> mem) = length \<sigma>"
    by (simp add: np_empty_like_def)
  have range: "\<forall>i\<in>set order. i < length (np_empty_like \<sigma> mem)"
    using assms(1,2) by (simp add: len)
  note r = fill_loop_Inr [OF range assms(3) [unfolded K_time_def]]
  from r(1) show "length out = length \<sigma>" by (simp add: len)
  show "\<forall>i<length (grid og). \<exists>r.
            solver (\<lambda>c. objective og c \<sigma> (grid og ! i)) (1 / 10 ^ 10)
              (grid og ! i - 1 / 10 ^ 10) None None None = Inr r \<and> out ! i = root r"
  proof (intro allI impI)
    fix i assume "i < length (grid og)"
    then have "i \<in> set order" using assms(1) by simp
    with r(2) have "(case solver (\<lambda>c. objective og c \<sigma> (grid og ! i)) (1 / 10 ^ 10)
              (grid og ! i - 1 / 10 ^ 10) None None None of
              Inl e \<Rightarrow> Inl e
            | Inr r \<Rightarrow> Inr (root r)) = Inr (out ! i)"
      by blast
    then show "\<exists>r. solver (\<lambda>c. objective og c \<sigma> (grid og ! i)) (1 / 10 ^ 10)
              (grid og ! i - 1 / 10 ^ 10) None None None = Inr r \<and> out ! i = root r"
      by (auto split: sum.splits)
  qed
  show "\<forall>j<length \<sigma>. length (grid og) \<le> j \<longrightarrow> out ! j = mem j"
  proof (intro allI impI)
    fix j assume j: "j < length \<sigma>" "length (grid og) \<le> j"
    then have "j \<notin> set order" using assms(1) by simp
    with r(3) j(1) have "out ! j = np_empty_like \<sigma> mem ! j"
      by (simp add: len)
    with j(1) show "out ! j = mem j"
      by (simp add: np_empty_like_def)
  qed
qed



section \<open>The root-finder\<close>

lemma opposite_signs:
  fixes a b c :: real
  assumes "a * c < 0" and "b \<noteq> 0" and "\<not> a * b < 0"
  shows "b * c < 0"
  using assms by (auto simp: mult_less_0_iff not_less zero_le_mult_iff)

lemma bisect_bracket:
  assumes "bisect F xtol rtol n lo flo hi its = Inr r"
    and "lo \<le> hi" and "F lo = Inr flo" and "F hi = Inr fhi" and "flo * fhi < 0"
  shows "lo \<le> root r \<and> root r \<le> hi
    \<and> iterations r \<le> its + n
    \<and> function_calls r = iterations r + 2
    \<and> (converged r \<longrightarrow>
          F (root r) = Inr 0
          \<or> (\<exists>lo' hi' fl fh. lo \<le> lo' \<and> lo' \<le> root r \<and> root r \<le> hi' \<and> hi' \<le> hi
                \<and> hi' - lo' \<le> xtol + rtol * \<bar>root r\<bar>
                \<and> F lo' = Inr fl \<and> F hi' = Inr fh \<and> fl * fh < 0))"
  using assms
proof (induction n arbitrary: lo flo hi fhi its)
  case 0
  let ?m = "(lo + hi) / 2"
  from "0.prems"(2) have m: "lo \<le> ?m" "?m \<le> hi" by simp_all
  show ?case
  proof (cases "\<bar>hi - lo\<bar> \<le> xtol + rtol * \<bar>?m\<bar>")
    case True
    with "0.prems"(1) have r: "r = \<lparr>root = ?m, function_calls = its + 2, iterations = its,
        converged = True\<rparr>"
      by (simp add: Let_def)
    have "\<exists>lo' hi' fl fh. lo \<le> lo' \<and> lo' \<le> ?m \<and> ?m \<le> hi' \<and> hi' \<le> hi
                \<and> hi' - lo' \<le> xtol + rtol * \<bar>?m\<bar>
                \<and> F lo' = Inr fl \<and> F hi' = Inr fh \<and> fl * fh < 0"
      using True m "0.prems"(2-5)
      by (intro exI [of _ lo] exI [of _ hi] exI [of _ flo] exI [of _ fhi]) simp
    with m show ?thesis by (simp add: r)
  next
    case False
    with "0.prems"(1) have r: "r = \<lparr>root = ?m, function_calls = its + 2, iterations = its,
        converged = False\<rparr>"
      by (simp add: Let_def)
    with m show ?thesis by simp
  qed
next
  case (Suc n)
  let ?m = "(lo + hi) / 2"
  from Suc.prems(2) have m: "lo \<le> ?m" "?m \<le> hi" by simp_all
  show ?case
  proof (cases "\<bar>hi - lo\<bar> \<le> xtol + rtol * \<bar>?m\<bar>")
    case True
    with Suc.prems(1) have r: "r = \<lparr>root = ?m, function_calls = its + 2, iterations = its,
        converged = True\<rparr>"
      by (simp add: Let_def)
    have "\<exists>lo' hi' fl fh. lo \<le> lo' \<and> lo' \<le> ?m \<and> ?m \<le> hi' \<and> hi' \<le> hi
                \<and> hi' - lo' \<le> xtol + rtol * \<bar>?m\<bar>
                \<and> F lo' = Inr fl \<and> F hi' = Inr fh \<and> fl * fh < 0"
      using True m Suc.prems(2-5)
      by (intro exI [of _ lo] exI [of _ hi] exI [of _ flo] exI [of _ fhi]) simp
    with m show ?thesis by (simp add: r)
  next
    case wide: False
    show ?thesis
    proof (cases "F ?m")
      case (Inl e)
      with wide Suc.prems(1) show ?thesis by (simp add: Let_def)
    next
      case (Inr fm)
      show ?thesis
      proof (cases "fm = 0")
        case True
        with wide Inr Suc.prems(1)
        have r: "r = \<lparr>root = ?m, function_calls = its + 3, iterations = its + 1,
            converged = True\<rparr>"
          by (simp add: Let_def)
        with m Inr True show ?thesis by simp
      next
        case nz: False
        show ?thesis
        proof (cases "flo * fm < 0")
          case True
          with wide Inr nz Suc.prems(1)
          have run: "bisect F xtol rtol n lo flo ?m (its + 1) = Inr r"
            by (simp add: Let_def)
          from Suc.IH [OF run m(1) Suc.prems(3) Inr True] m(2)
          show ?thesis by (fastforce simp: algebra_simps)
        next
          case False
          with wide Inr nz Suc.prems(1)
          have run: "bisect F xtol rtol n ?m fm hi (its + 1) = Inr r"
            by (simp add: Let_def)
          have sign: "fm * fhi < 0"
            by (rule opposite_signs [OF Suc.prems(5) nz False])
          from Suc.IH [OF run m(2) Inr Suc.prems(4) sign] m(1)
          show ?thesis by (fastforce simp: algebra_simps)
        qed
      qed
    qed
  qed
qed

lemma bisect_converges:
  assumes "bisect F xtol rtol n lo flo hi its = Inr r"
    and "lo \<le> hi" and "0 \<le> rtol" and "hi - lo \<le> xtol * 2 ^ n"
  shows "converged r"
  using assms
proof (induction n arbitrary: lo flo hi its)
  case 0
  let ?m = "(lo + hi) / 2"
  have "0 \<le> rtol * \<bar>?m\<bar>" using "0.prems"(3) by simp
  with "0.prems"(2,4) have "\<bar>hi - lo\<bar> \<le> xtol + rtol * \<bar>?m\<bar>" by simp
  with "0.prems"(1) show ?case by (auto simp: Let_def)
next
  case (Suc n)
  let ?m = "(lo + hi) / 2"
  from Suc.prems(2) have m: "lo \<le> ?m" "?m \<le> hi" by simp_all
  from Suc.prems(4) have half: "?m - lo \<le> xtol * 2 ^ n" "hi - ?m \<le> xtol * 2 ^ n"
    by (simp_all add: field_simps)
  show ?case
  proof (cases "\<bar>hi - lo\<bar> \<le> xtol + rtol * \<bar>?m\<bar>")
    case True
    with Suc.prems(1) show ?thesis by (auto simp: Let_def)
  next
    case wide: False
    show ?thesis
    proof (cases "F ?m")
      case (Inl e)
      with wide Suc.prems(1) show ?thesis by (simp add: Let_def)
    next
      case (Inr fm)
      show ?thesis
      proof (cases "fm = 0")
        case True
        with wide Inr Suc.prems(1) show ?thesis by (auto simp: Let_def)
      next
        case nz: False
        show ?thesis
        proof (cases "flo * fm < 0")
          case True
          with wide Inr nz Suc.prems(1)
          have run: "bisect F xtol rtol n lo flo ?m (its + 1) = Inr r"
            by (simp add: Let_def)
          show ?thesis by (rule Suc.IH [OF run m(1) Suc.prems(3) half(1)])
        next
          case False
          with wide Inr nz Suc.prems(1)
          have run: "bisect F xtol rtol n ?m fm hi (its + 1) = Inr r"
            by (simp add: Let_def)
          show ?thesis by (rule Suc.IH [OF run m(2) Suc.prems(3) half(2)])
        qed
      qed
    qed
  qed
qed

lemma brentq_bracket:
  assumes "brentq F a b None None None = Inr r" and "a \<le> b"
  shows "a \<le> root r \<and> root r \<le> b
    \<and> iterations r \<le> 100
    \<and> function_calls r = iterations r + 2
    \<and> (b - a \<le> 10 ^ 20 \<longrightarrow> converged r)
    \<and> (converged r \<longrightarrow>
          F (root r) = Inr 0
          \<or> (\<exists>lo hi fl fh. a \<le> lo \<and> lo \<le> root r \<and> root r \<le> hi \<and> hi \<le> b
                \<and> hi - lo \<le> 1 / 10 ^ 10 + 1 / 10 ^ 10 * \<bar>root r\<bar>
                \<and> F lo = Inr fl \<and> F hi = Inr fh \<and> fl * fh < 0))"
proof -
  from assms(1) obtain fa fb where fa: "F a = Inr fa" and fb: "F b = Inr fb"
    and sign: "\<not> 0 < fa * fb"
    by (auto simp: brentq_def split: sum.splits if_splits)
  show ?thesis
  proof (cases "fa = 0 \<or> fb = 0")
    case True
    with assms fa fb sign show ?thesis
      by (auto simp: brentq_def split: if_splits)
  next
    case False
    with sign have neg: "fa * fb < 0"
      by (auto simp: not_less mult_le_0_iff mult_less_0_iff)
    from False assms(1) fa fb sign
    have run: "bisect F (1 / 10 ^ 10) (1 / 10 ^ 10) 100 a fa b 0 = Inr r"
      by (simp add: brentq_def)
    note br = bisect_bracket [OF run assms(2) fa fb neg]
    have conv: "converged r" if "b - a \<le> 10 ^ 20"
    proof (rule bisect_converges [OF run assms(2)])
      show "(0 :: real) \<le> 1 / 10 ^ 10" by simp
      have "(10 :: real) ^ 20 \<le> 1 / 10 ^ 10 * 2 ^ 100" by simp
      with that show "b - a \<le> 1 / 10 ^ 10 * 2 ^ 100" by linarith
    qed
    from br conv show ?thesis by simp
  qed
qed

lemma brentq_returns:
  assumes "\<forall>x. a \<le> x \<and> x \<le> b \<longrightarrow> (\<exists>v. F x = Inr v)"
    and "a \<le> b" and "F a = Inr fa" and "F b = Inr fb" and "fa * fb \<le> 0"
  shows "\<exists>r. brentq F a b xtol rtol maxiter = Inr r"
proof -
  have bis: "\<exists>r. bisect F xt rt n lo flo hi its = Inr r"
    if "a \<le> lo" "lo \<le> hi" "hi \<le> b" for xt rt n lo flo hi its
    using that
  proof (induction n arbitrary: lo flo hi its)
    case 0
    show ?case by (simp add: Let_def)
  next
    case (Suc n)
    let ?m = "(lo + hi) / 2"
    from Suc.prems have m: "a \<le> ?m" "?m \<le> b" "lo \<le> ?m" "?m \<le> hi" by simp_all
    with assms(1) obtain fm where fm: "F ?m = Inr fm" by blast
    from Suc.IH [OF Suc.prems(1) m(3)] m(2) Suc.prems(3) m(4)
    have 1: "\<exists>r. bisect F xt rt n lo flo ?m (its + 1) = Inr r" by simp
    from Suc.IH [OF m(1) m(4) Suc.prems(3)]
    have 2: "\<exists>r. bisect F xt rt n ?m fm hi (its + 1) = Inr r" by simp
    from 1 2 fm show ?case by (simp add: Let_def)
  qed
  from assms(5) have "\<not> 0 < fa * fb" by simp
  with assms(2,3,4) bis [of a b] show ?thesis
    by (simp add: brentq_def)
qed

section \<open>Monotone model functions\<close>

lemma positive_posD:
  assumes "positive_pos g" and "0 < x"
  shows "g x = Inr (projr (g x))" and "0 < projr (g x)"
  using assms unfolding positive_pos_def by auto

lemma increasing_posD:
  assumes "increasing_pos g" and "0 < x" and "x < y"
  shows "projr (g x) < projr (g y)"
  using assms unfolding increasing_pos_def by fastforce

lemma decreasing_posD:
  assumes "decreasing_pos g" and "0 < x" and "x < y"
  shows "projr (g y) < projr (g x)"
  using assms unfolding decreasing_pos_def by fastforce

lemma nonincreasing_posD:
  assumes "nonincreasing_pos g" and "0 < x" and "x < y"
  shows "projr (g y) \<le> projr (g x)"
  using assms unfolding nonincreasing_pos_def by fastforce

lemma inverse_posD:
  assumes "inverse_pos g h" and "0 < m"
  shows "h m = Inr (projr (h m))" and "0 < projr (h m)" and "g (projr (h m)) = Inr m"
  using assms unfolding inverse_pos_def by auto

lemma inverse_decreasing:
  assumes "inverse_pos g h" and "decreasing_pos g" and "0 < m" and "m < m'"
  shows "projr (h m') < projr (h m)"
proof (rule ccontr)
  assume "\<not> projr (h m') < projr (h m)"
  then have le: "projr (h m) \<le> projr (h m')" by simp
  have m: "0 < projr (h m)" "g (projr (h m)) = Inr m"
    using inverse_posD [OF assms(1,3)] by simp_all
  have m': "g (projr (h m')) = Inr m'"
    using inverse_posD(3) [OF assms(1), of m'] assms(3,4) by simp
  show False
  proof (cases "projr (h m) = projr (h m')")
    case True
    with m(2) m' assms(4) show False by simp
  next
    case False
    with le have "projr (h m) < projr (h m')" by simp
    from decreasing_posD [OF assms(2) m(1) this] m(2) m' assms(4)
    show False by simp
  qed
qed

section \<open>The closed-form policy\<close>





section \<open>The example inputs\<close>

lemmas example_defs = og_quadratic_def og_checked_def og_half_def og_log_linear_def og_cubic_def
  f_linear_def f_prime_linear_def f_cubic_def f_prime_cubic_def u_prime_quadratic_def
  u_prime_inv_checked_def identity_policy_def saturating_policy_def u_prime_log_def


lemma og_cubic_init:
  "OptimalGrowthModel_init f_cubic f_prime_cubic np_log u_prime_log u_prime_log
     (1 / 20) 0 0 2 3 1 zero_draws = (Inr og_cubic, zero_draws)"
  by (simp add: OptimalGrowthModel_init_def np_linspace_def np_random_randn_def og_cubic_def
      zero_draws_def upt_rec)

lemma identity_policy_pos: "increasing_pos identity_policy" "positive_pos identity_policy"
  by (simp_all add: increasing_pos_def positive_pos_def identity_policy_def)

lemma f_linear_pos:
  "increasing_pos f_linear" "positive_pos f_linear"
  "nonincreasing_pos f_prime_linear" "positive_pos f_prime_linear"
  by (simp_all add: increasing_pos_def positive_pos_def nonincreasing_pos_def f_linear_def
      f_prime_linear_def)

lemma u_prime_log_pos:
  "decreasing_pos u_prime_log" "positive_pos u_prime_log" "inverse_pos u_prime_log u_prime_log"
  by (simp_all add: decreasing_pos_def positive_pos_def inverse_pos_def u_prime_log_def
      frac_less2)

lemma saturating_policy_pos:
  "increasing_pos saturating_policy" "positive_pos saturating_policy"
proof -
  have "x / (1 + x) < y / (1 + y)" if "0 < x" "x < y" for x y :: real
    using that by (simp add: field_simps)
  then show "increasing_pos saturating_policy"
    by (simp add: increasing_pos_def saturating_policy_def)
  show "positive_pos saturating_policy"
    by (simp add: positive_pos_def saturating_policy_def)
qed

lemma f_cubic_pos:
  "increasing_pos f_cubic" "positive_pos f_cubic" "positive_pos f_prime_cubic"
proof -
  have "x ^ 3 < y ^ 3" if "0 < x" "x < y" for x y :: real
    using that by (intro power_strict_mono) simp_all
  then show "increasing_pos f_cubic"
    by (simp add: increasing_pos_def f_cubic_def)
  show "positive_pos f_cubic" "positive_pos f_prime_cubic"
    by (simp_all add: positive_pos_def f_cubic_def f_prime_cubic_def)
qed

lemma og_half_points:
  "K_points og_half identity_policy = Inr ([3 / 100000, 12], [1 / 50000, 8])"
  by (simp add: K_points_def K_c_def K_vals_def np_mean_def example_defs)

lemma og_log_linear_points:
  "K_points og_log_linear identity_policy = Inr ([49 / 2400000, 49 / 6], [1 / 96000, 25 / 6])"
  by (simp add: K_points_def K_c_def K_vals_def np_mean_def example_defs)

lemma og_cubic_points:
  "K_points og_cubic saturating_policy
     = Inr ([23000000000000003 / 300000000000000300000,
             13866760000240000800001 / 3200024000120000200000, 94 / 27],
            [200000000000 / 3000000000000003, 53333600000000000 / 16000120000600001, 40 / 27])"
  by (simp add: K_points_def K_c_def K_vals_def np_mean_def example_defs
      power3_eq_cube power2_eq_square)

lemma og_half_objective:
  "objective og_half c [1 / 100000, 4] y = Inr (2 * y - 3 * c)"
  by (simp add: objective_def lerp_def np_mean_def example_defs Let_def f_linear_def
      f_prime_linear_def u_prime_quadratic_def field_simps)



lemma og_half_time_brentq:
  "time_operator_factory brentq og_half True [1, 0] [1 / 100000, 4] (\<lambda>i. 0)
     = Inr [8738106309 / 1310720000000000, 458129844894273376939 / 171798691840000000000]"
proof -
  have g: "grid og_half ! 0 = 1 / 100000" "grid og_half ! 1 = 4" "grid og_half ! Suc 0 = 4"
    by (simp_all add: example_defs)
  show ?thesis
    by (simp add: time_operator_factory_def K_time_def np_empty_like_def g og_half_objective
        brentq_def Let_def upt_rec)
qed

section \<open>Properties of the operators\<close>

text \<open>
  C1. Where the model functions and the policy return values at the points the operator
  calls them on, and the shock sample is not empty, one application of the endogenous
  grid operator returns the interpolant of the pairs \<open>(y\<^sub>i, c\<^sub>i)\<close> with
  \<open>c\<^sub>i = u_prime_inv (\<beta> * mean\<^sub>j (u_prime (\<sigma> (f k\<^sub>i * z\<^sub>j)) * f_prime k\<^sub>i * z\<^sub>j))\<close>, the mean being
  the sum over the shock sample divided by its size, and \<open>y\<^sub>i = k\<^sub>i + c\<^sub>i\<close>, one pair for
  each point \<open>k\<^sub>i\<close> of the model's grid. \<open>F\<close>, \<open>FP\<close>, \<open>UP\<close>, \<open>UPI\<close> and \<open>S\<close> name the values
  the callables return.
\<close>

theorem K_egm_formula:
  assumes "shocks og \<noteq> []"
    and "\<And>k. k \<in> set (grid og) \<Longrightarrow> f og k = Inr (F k)"
    and "\<And>k. k \<in> set (grid og) \<Longrightarrow> f_prime og k = Inr (FP k)"
    and "\<And>k z. k \<in> set (grid og) \<Longrightarrow> z \<in> set (shocks og) \<Longrightarrow> \<sigma> (F k * z) = Inr (S (F k * z))"
    and "\<And>k z. k \<in> set (grid og) \<Longrightarrow> z \<in> set (shocks og) \<Longrightarrow>
           u_prime og (S (F k * z)) = Inr (UP (S (F k * z)))"
    and "\<And>k. k \<in> set (grid og) \<Longrightarrow>
           u_prime_inv og (\<beta> og * ((\<Sum>z\<leftarrow>shocks og. UP (S (F k * z)) * FP k * z)
              / real (length (shocks og))))
           = Inr (UPI (\<beta> og * ((\<Sum>z\<leftarrow>shocks og. UP (S (F k * z)) * FP k * z)
              / real (length (shocks og)))))"
  shows "\<exists>y c. egm_operator_factory og \<sigma> = Inr (\<lambda>x. interp y c x)
           \<and> K_points og \<sigma> = Inr (y, c)
           \<and> length c = length (grid og) \<and> length y = length (grid og)
           \<and> (\<forall>i<length (grid og).
                 c ! i = UPI (\<beta> og * ((\<Sum>z\<leftarrow>shocks og.
                            UP (S (F (grid og ! i) * z)) * FP (grid og ! i) * z)
                          / real (length (shocks og))))
                 \<and> y ! i = grid og ! i + c ! i)"
proof -
  let ?rhs = "\<lambda>k. \<beta> og * ((\<Sum>z\<leftarrow>shocks og. UP (S (F k * z)) * FP k * z) / real (length (shocks og)))"
  have c: "K_c og \<sigma> k = Inr (UPI (?rhs k))" if "k \<in> set (grid og)" for k
  proof -
    have "K_vals og \<sigma> k = Inr (map (\<lambda>z. UP (S (F k * z)) * FP k * z) (shocks og))"
      by (rule K_vals_eval) (use assms(2-5) that in auto)
    then show ?thesis
      using assms(6) [OF that] by (simp add: K_c_def np_mean_def)
  qed
  define cs where "cs = map (\<lambda>k. UPI (?rhs k)) (grid og)"
  have "map_err (K_c og \<sigma>) (grid og) = Inr cs"
    unfolding cs_def by (rule map_err_map) (rule c)
  then have p: "K_points og \<sigma> = Inr (map2 (+) (grid og) cs, cs)"
    by (simp add: K_points_def)
  then have k: "egm_operator_factory og \<sigma> = Inr (\<lambda>x. interp (map2 (+) (grid og) cs) cs x)"
    by (simp add: K_egm_def egm_operator_factory_def)
  have "length cs = length (grid og)"
    by (simp add: cs_def)
  moreover have "\<forall>i<length (grid og). cs ! i = UPI (?rhs (grid og ! i))
      \<and> map2 (+) (grid og) cs ! i = grid og ! i + cs ! i"
    by (simp add: cs_def)
  ultimately show ?thesis
    using p k by (intro exI [of _ "map2 (+) (grid og) cs"] exI [of _ cs]) simp
qed

theorem K_egm_formula_witness:
  "\<exists>y c. egm_operator_factory og_quadratic identity_policy = Inr (\<lambda>x. interp y c x)
      \<and> K_points og_quadratic identity_policy = Inr (y, c)
      \<and> length c = 2 \<and> length y = 2
      \<and> c ! 0 = 1 - 96 / 100 * ((1 - 2 * (1 / 100000) * 1) * 2 * 1 / 1)
      \<and> y ! 0 = 1 / 100000 + c ! 0
      \<and> c ! 1 = 1 - 96 / 100 * ((1 - 2 * 4 * 1) * 2 * 1 / 1)
      \<and> y ! 1 = 4 + c ! 1"
proof -
  have "\<exists>y c. egm_operator_factory og_quadratic identity_policy = Inr (\<lambda>x. interp y c x)
      \<and> K_points og_quadratic identity_policy = Inr (y, c)
      \<and> length c = length (grid og_quadratic) \<and> length y = length (grid og_quadratic)
      \<and> (\<forall>i<length (grid og_quadratic).
            c ! i = (\<lambda>m. 1 - m) (\<beta> og_quadratic * ((\<Sum>z\<leftarrow>shocks og_quadratic.
                      (\<lambda>c. 1 - c) ((\<lambda>x. x) ((\<lambda>k. 2 * k) (grid og_quadratic ! i) * z))
                        * (\<lambda>k. 2) (grid og_quadratic ! i) * z)
                    / real (length (shocks og_quadratic))))
            \<and> y ! i = grid og_quadratic ! i + c ! i)"
    by (rule K_egm_formula)
      (simp_all add: og_quadratic_def f_linear_def f_prime_linear_def u_prime_quadratic_def
        identity_policy_def)
  then obtain y c where
    "egm_operator_factory og_quadratic identity_policy = Inr (\<lambda>x. interp y c x)"
    "K_points og_quadratic identity_policy = Inr (y, c)"
    "length c = length (grid og_quadratic)" "length y = length (grid og_quadratic)"
    and nth: "\<forall>i<length (grid og_quadratic).
            c ! i = (\<lambda>m. 1 - m) (\<beta> og_quadratic * ((\<Sum>z\<leftarrow>shocks og_quadratic.
                      (\<lambda>c. 1 - c) ((\<lambda>x. x) ((\<lambda>k. 2 * k) (grid og_quadratic ! i) * z))
                        * (\<lambda>k. 2) (grid og_quadratic ! i) * z)
                    / real (length (shocks og_quadratic))))
            \<and> y ! i = grid og_quadratic ! i + c ! i"
    by blast
  moreover from nth have "c ! 0 = 1 - 96 / 100 * ((1 - 2 * (1 / 100000) * 1) * 2 * 1 / 1)
      \<and> y ! 0 = 1 / 100000 + c ! 0"
    by (simp add: og_quadratic_def)
  moreover from nth have "c ! 1 = 1 - 96 / 100 * ((1 - 2 * 4 * 1) * 2 * 1 / 1)
      \<and> y ! 1 = 4 + c ! 1"
    by (simp add: og_quadratic_def)
  ultimately show ?thesis
    by (intro exI [of _ y] exI [of _ c]) (simp add: og_quadratic_def)
qed

text \<open>
  C2 (as amended). Let the grid be positive and strictly increasing, the shock sample
  non-empty and positive and \<open>\<beta> > 0\<close>. On the positive reals let \<open>f\<close>, \<open>f_prime\<close>,
  \<open>u_prime\<close> and the policy be positive, \<open>f\<close> and the policy strictly increasing,
  \<open>u_prime\<close> strictly decreasing with \<open>u_prime_inv\<close> its inverse, and \<open>f_prime\<close>
  non-increasing (a concave production function). Then the operator returns an
  endogenous grid that is strictly increasing in the grid index.
\<close>

theorem endogenous_grid_increasing:
  assumes "sorted_wrt (<) (grid og)" and "\<forall>k\<in>set (grid og). 0 < k"
    and "shocks og \<noteq> []" and "\<forall>z\<in>set (shocks og). 0 < z"
    and "0 < \<beta> og"
    and "increasing_pos \<sigma>" and "positive_pos \<sigma>"
    and "increasing_pos (f og)" and "positive_pos (f og)"
    and "nonincreasing_pos (f_prime og)" and "positive_pos (f_prime og)"
    and "decreasing_pos (u_prime og)" and "positive_pos (u_prime og)"
    and "inverse_pos (u_prime og) (u_prime_inv og)"
  shows "\<exists>y c. K_points og \<sigma> = Inr (y, c) \<and> length y = length (grid og) \<and> sorted_wrt (<) y"
proof -
  define F where "F k = projr (f og k)" for k
  define FP where "FP k = projr (f_prime og k)" for k
  define S where "S x = projr (\<sigma> x)" for x
  define UP where "UP c = projr (u_prime og c)" for c
  define UPI where "UPI m = projr (u_prime_inv og m)" for m
  define T where "T k z = UP (S (F k * z)) * FP k * z" for k z
  define M where "M k = \<beta> og * np_mean (map (T k) (shocks og))" for k
  have F: "f og k = Inr (F k)" "0 < F k" if "0 < k" for k
    using positive_posD [OF assms(9) that] by (simp_all add: F_def)
  have FP: "f_prime og k = Inr (FP k)" "0 < FP k" if "0 < k" for k
    using positive_posD [OF assms(11) that] by (simp_all add: FP_def)
  have S: "\<sigma> x = Inr (S x)" "0 < S x" if "0 < x" for x
    using positive_posD [OF assms(7) that] by (simp_all add: S_def)
  have UP: "u_prime og c = Inr (UP c)" "0 < UP c" if "0 < c" for c
    using positive_posD [OF assms(13) that] by (simp_all add: UP_def)
  have UPI: "u_prime_inv og m = Inr (UPI m)" if "0 < m" for m
    using inverse_posD(1) [OF assms(14) that] by (simp add: UPI_def)
  have zpos: "0 < z" if "z \<in> set (shocks og)" for z
    using assms(4) that by blast
  have Tpos: "0 < T k z" if "0 < k" "z \<in> set (shocks og)" for k z
  proof -
    have "0 < F k * z" using F(2) [OF that(1)] zpos [OF that(2)] by simp
    then have "0 < UP (S (F k * z))" using S(2) UP(2) by simp
    then show ?thesis
      unfolding T_def using FP(2) [OF that(1)] zpos [OF that(2)] by simp
  qed
  have Tless: "T k' z < T k z" if "0 < k" "k < k'" "z \<in> set (shocks og)" for k k' z
  proof -
    have z: "0 < z" by (rule zpos [OF that(3)])
    have k': "0 < k'" using that(1,2) by simp
    have "F k < F k'"
      using increasing_posD [OF assms(8) that(1,2)] by (simp add: F_def)
    then have lt: "F k * z < F k' * z" using z by simp
    have pos: "0 < F k * z" using F(2) [OF that(1)] z by simp
    have "S (F k * z) < S (F k' * z)"
      using increasing_posD [OF assms(6) pos lt] by (simp add: S_def)
    moreover have "0 < S (F k * z)" by (rule S(2) [OF pos])
    ultimately have a: "UP (S (F k' * z)) < UP (S (F k * z))"
      using decreasing_posD [OF assms(12), of "S (F k * z)" "S (F k' * z)"] by (simp add: UP_def)
    have a0: "0 < UP (S (F k' * z))"
      using S(2) [of "F k' * z"] UP(2) F(2) [OF k'] z by simp
    have b: "FP k' \<le> FP k"
      using nonincreasing_posD [OF assms(10) that(1,2)] by (simp add: FP_def)
    have b0: "0 < FP k'" by (rule FP(2) [OF k'])
    have "UP (S (F k' * z)) * FP k' < UP (S (F k * z)) * FP k"
      using a b a0 b0 by (intro mult_less_le_imp_less) simp_all
    then show ?thesis
      unfolding T_def using z by simp
  qed
  have Mpos: "0 < M k" if "0 < k" for k
    unfolding M_def using assms(5) np_mean_pos [OF assms(3), of "T k"] Tpos [OF that] by simp
  have Mless: "M k' < M k" if "0 < k" "k < k'" for k k'
    unfolding M_def using assms(5) np_mean_strict_mono [OF assms(3), of "T k'" "T k"]
      Tless [OF that] by simp
  have c: "K_c og \<sigma> k = Inr (UPI (M k))" if "0 < k" for k
  proof -
    have pos: "0 < F k * z" if "z \<in> set (shocks og)" for z
      using F(2) [OF \<open>0 < k\<close>] zpos [OF that] by simp
    have 1: "\<sigma> (F k * z) = Inr (S (F k * z))" if "z \<in> set (shocks og)" for z
      by (rule S(1) [OF pos [OF that]])
    have 2: "u_prime og (S (F k * z)) = Inr (UP (S (F k * z)))" if "z \<in> set (shocks og)" for z
      by (rule UP(1) [OF S(2) [OF pos [OF that]]])
    have "K_vals og \<sigma> k = Inr (map (\<lambda>z. UP (S (F k * z)) * FP k * z) (shocks og))"
      using F(1) [OF that] 1 2 FP(1) [OF that] by (rule K_vals_eval)
    then have "K_vals og \<sigma> k = Inr (map (T k) (shocks og))"
      by (simp add: T_def [abs_def])
    then show ?thesis
      using UPI [OF Mpos [OF that]] by (simp add: K_c_def M_def)
  qed
  define cs where "cs = map (\<lambda>k. UPI (M k)) (grid og)"
  have "map_err (K_c og \<sigma>) (grid og) = Inr cs"
    unfolding cs_def by (rule map_err_map) (use c assms(2) in blast)
  then have p: "K_points og \<sigma> = Inr (map2 (+) (grid og) cs, cs)"
    by (simp add: K_points_def)
  have y: "map2 (+) (grid og) cs = map (\<lambda>k. k + UPI (M k)) (grid og)"
    unfolding cs_def by (induction "grid og") (auto simp: zip_map2 zip_same_conv_map)
  have "sorted_wrt (<) (map (\<lambda>k. k + UPI (M k)) (grid og))"
  proof (rule sorted_wrt_map_mono [OF assms(1)])
    fix k k' assume k: "k \<in> set (grid og)" and kk': "k < k'"
    from k assms(2) have k0: "0 < k" by blast
    have "UPI (M k) < UPI (M k')"
      using inverse_decreasing [OF assms(14,12) Mpos Mless [OF k0 kk']] k0 kk'
      by (simp add: UPI_def)
    with kk' show "k + UPI (M k) < k' + UPI (M k')" by simp
  qed
  with p y show ?thesis by simp
qed

theorem endogenous_grid_increasing_witness:
  "\<exists>y c. K_points og_log_linear identity_policy = Inr (y, c)
      \<and> length y = 2 \<and> sorted_wrt (<) y"
proof -
  have "\<exists>y c. K_points og_log_linear identity_policy = Inr (y, c)
      \<and> length y = length (grid og_log_linear) \<and> sorted_wrt (<) y"
    by (rule endogenous_grid_increasing)
      (simp_all add: og_log_linear_def identity_policy_pos f_linear_pos u_prime_log_pos)
  then show ?thesis by (simp add: og_log_linear_def numeral_2_eq_2)
qed

text \<open>
  C2 as stated fails: its assumptions do not ask for a concave production function. The
  production function \<open>k\<^sup>3\<close> is strictly increasing with value \<open>0\<close> at \<open>0\<close>, log utility
  has a strictly decreasing marginal utility that is its own inverse, and the policy
  \<open>x / (1 + x)\<close> is strictly increasing and consumes less than the income. On the
  three-point grid over \<open>[1e-5, 2]\<close> with \<open>\<beta> = 0.05\<close> the endogenous grid points cross:
  \<open>y\<^sub>2 = 94 / 27\<close> is below \<open>y\<^sub>1\<close>, which is above \<open>4\<close>.
\<close>

theorem endogenous_grid_crossing:
  "fst (OptimalGrowthModel_init f_cubic f_prime_cubic np_log u_prime_log u_prime_log
          (1 / 20) 0 0 2 3 1 zero_draws) = Inr og_cubic
   \<and> increasing_pos saturating_policy \<and> positive_pos saturating_policy
   \<and> increasing_pos (f og_cubic) \<and> positive_pos (f og_cubic) \<and> f og_cubic 0 = Inr 0
   \<and> positive_pos (f_prime og_cubic)
   \<and> decreasing_pos (u_prime og_cubic) \<and> positive_pos (u_prime og_cubic)
   \<and> inverse_pos (u_prime og_cubic) (u_prime_inv og_cubic)
   \<and> sorted_wrt (<) (grid og_cubic) \<and> shocks og_cubic = [1]
   \<and> 0 < \<beta> og_cubic \<and> \<beta> og_cubic < 1
   \<and> (\<exists>y c. K_points og_cubic saturating_policy = Inr (y, c)
         \<and> length y = 3 \<and> 4 < y ! 1 \<and> y ! 2 = 94 / 27 \<and> \<not> sorted_wrt (<) y)"
proof -
  let ?y = "[23000000000000003 / 300000000000000300000,
             13866760000240000800001 / 3200024000120000200000, 94 / 27 :: real]"
  have 1: "length ?y = 3"
    by simp
  have 2: "4 < ?y ! 1"
    by simp
  have 3: "?y ! 2 = 94 / 27"
    by simp
  have 4: "\<not> sorted_wrt (<) ?y"
  proof
    assume "sorted_wrt (<) ?y"
    then have "?y ! 1 < ?y ! 2"
      by (rule sorted_wrt_nth_less) simp_all
    then show False by simp
  qed
  from og_cubic_points 1 2 3 4
  have "\<exists>y c. K_points og_cubic saturating_policy = Inr (y, c)
         \<and> length y = 3 \<and> 4 < y ! 1 \<and> y ! 2 = 94 / 27 \<and> \<not> sorted_wrt (<) y"
    by blast
  moreover have "f og_cubic = f_cubic" "f_prime og_cubic = f_prime_cubic"
    "u_prime og_cubic = u_prime_log" "u_prime_inv og_cubic = u_prime_log"
    by (simp_all add: og_cubic_def)
  moreover have "f_cubic 0 = Inr 0"
    by (simp add: f_cubic_def)
  moreover have "sorted_wrt (<) (grid og_cubic)" "shocks og_cubic = [1]"
    "0 < \<beta> og_cubic" "\<beta> og_cubic < 1"
    by (simp_all add: og_cubic_def)
  ultimately show ?thesis
    using og_cubic_init saturating_policy_pos f_cubic_pos u_prime_log_pos by simp
qed

text \<open>
  C3 (as amended). The constructor validates nothing, so it never fails with a
  \<open>ConfigurationError\<close>. For every discount factor and every \<open>grid_size \<ge> 0\<close> and
  \<open>shock_size \<ge> 0\<close> it returns a model that stores its arguments unchanged, with
  \<open>grid_size\<close> grid points and \<open>shock_size\<close> shocks. Only a negative \<open>grid_size\<close> or
  \<open>shock_size\<close> makes the construction fail, with numpy's \<open>ValueError\<close>.
\<close>

theorem construction_never_validates:
  "fst (OptimalGrowthModel_init f0 f_prime0 u0 u_prime0 u_prime_inv0 \<beta>0 \<mu>0 s0
          grid_max grid_size shock_size g) \<noteq> Inl ConfigurationError
   \<and> (0 \<le> grid_size \<and> 0 \<le> shock_size \<longrightarrow>
        (\<exists>og g'. OptimalGrowthModel_init f0 f_prime0 u0 u_prime0 u_prime_inv0 \<beta>0 \<mu>0 s0
                    grid_max grid_size shock_size g = (Inr og, g')
           \<and> \<beta> og = \<beta>0 \<and> \<mu> og = \<mu>0 \<and> s og = s0 \<and> f og = f0 \<and> u og = u0
           \<and> f_prime og = f_prime0 \<and> u_prime og = u_prime0 \<and> u_prime_inv og = u_prime_inv0
           \<and> length (grid og) = nat grid_size \<and> length (shocks og) = nat shock_size))
   \<and> (grid_size < 0 \<or> shock_size < 0 \<longrightarrow>
        fst (OptimalGrowthModel_init f0 f_prime0 u0 u_prime0 u_prime_inv0 \<beta>0 \<mu>0 s0
               grid_max grid_size shock_size g) = Inl ValueError)"
  by (auto simp: OptimalGrowthModel_init_def np_linspace_def np_random_randn_def
      split: sum.splits prod.splits if_splits)

theorem construction_never_validates_witness:
  "fst (OptimalGrowthModel_init f_linear f_prime_linear u_quadratic u_prime_quadratic
          u_prime_quadratic 2 0 0 4 0 0 zero_draws) \<noteq> Inl ConfigurationError
   \<and> (\<exists>og g'. OptimalGrowthModel_init f_linear f_prime_linear u_quadratic u_prime_quadratic
                 u_prime_quadratic 2 0 0 4 0 0 zero_draws = (Inr og, g')
         \<and> \<beta> og = 2 \<and> length (grid og) = 0 \<and> length (shocks og) = 0)
   \<and> fst (OptimalGrowthModel_init f_linear f_prime_linear u_quadratic u_prime_quadratic
            u_prime_quadratic (96 / 100) 0 0 4 (- 1) 1 zero_draws) = Inl ValueError"
  using construction_never_validates [of f_linear f_prime_linear u_quadratic u_prime_quadratic
      u_prime_quadratic 2 0 0 4 0 0 zero_draws]
    construction_never_validates [of f_linear f_prime_linear u_quadratic u_prime_quadratic
      u_prime_quadratic "96 / 100" 0 0 4 "- 1" 1 zero_draws]
  by auto

text \<open>
  C3 as stated fails: a discount factor of \<open>1.5\<close>, a grid of one point and an empty
  shock sample are each accepted, and the model is returned.
\<close>

theorem construction_accepts_invalid:
  "fst (OptimalGrowthModel_init f_linear f_prime_linear u_quadratic u_prime_quadratic
          u_prime_quadratic (3 / 2) 0 0 4 2 1 zero_draws) = Inr (og_quadratic\<lparr>\<beta> := 3 / 2\<rparr>)
   \<and> fst (OptimalGrowthModel_init f_linear f_prime_linear u_quadratic u_prime_quadratic
            u_prime_quadratic (96 / 100) 0 0 4 1 1 zero_draws)
        = Inr (og_quadratic\<lparr>grid := [1 / 100000]\<rparr>)
   \<and> fst (OptimalGrowthModel_init f_linear f_prime_linear u_quadratic u_prime_quadratic
            u_prime_quadratic (96 / 100) 0 0 4 2 0 zero_draws)
        = Inr (og_quadratic\<lparr>shocks := []\<rparr>)"
  by (simp add: OptimalGrowthModel_init_def np_linspace_def np_random_randn_def og_quadratic_def
      zero_draws_def upt_rec)

text \<open>
  C4 (as amended). An application of the endogenous grid operator, on a model with a
  shock sample that is not empty, has no domain check and no clamping of its own. It
  fails exactly when a call of \<open>f\<close>, of the policy, of \<open>u_prime\<close>, of \<open>f_prime\<close> or of
  \<open>u_prime_inv\<close> raises, and then with the exception of the first call that raises, at
  the first grid point at which one does: a \<open>DomainError\<close> reaches the caller exactly
  when that call raises it. It returns exactly when every call returns, and then the
  consumption value stored for a grid point is the value the call of \<open>u_prime_inv\<close>
  returned for it, whatever its sign.
\<close>

theorem K_egm_fails_iff_a_call_raises:
  assumes "shocks og \<noteq> []"
  shows "(egm_operator_factory og \<sigma> = Inl e \<longleftrightarrow>
            (\<exists>i<length (grid og). point_raises og \<sigma> (grid og ! i) e
                \<and> (\<forall>l<i. \<exists>v. point_returns og \<sigma> (grid og ! l) v)))
    \<and> (K_points og \<sigma> = Inr (y, c) \<longleftrightarrow>
            length c = length (grid og)
            \<and> (\<forall>i<length (grid og). point_returns og \<sigma> (grid og ! i) (c ! i))
            \<and> y = map2 (+) (grid og) c)
    \<and> (egm_operator_factory og \<sigma> = Inr \<sigma>_new \<longleftrightarrow>
            (\<exists>y c. K_points og \<sigma> = Inr (y, c) \<and> \<sigma>_new = interp y c))"
proof (intro conjI)
  have "egm_operator_factory og \<sigma> = Inl e \<longleftrightarrow> map_err (K_c og \<sigma>) (grid og) = Inl e"
    by (simp add: egm_operator_factory_def K_egm_Inl_iff K_points_Inl_iff)
  also have "\<dots> \<longleftrightarrow> (\<exists>i<length (grid og). K_c og \<sigma> (grid og ! i) = Inl e
      \<and> (\<forall>l<i. \<exists>v. K_c og \<sigma> (grid og ! l) = Inr v))"
    by (simp add: map_err_Inl_iff not_isl_iff)
  finally show "egm_operator_factory og \<sigma> = Inl e \<longleftrightarrow>
            (\<exists>i<length (grid og). point_raises og \<sigma> (grid og ! i) e
                \<and> (\<forall>l<i. \<exists>v. point_returns og \<sigma> (grid og ! l) v))"
    by (simp only: K_c_raises_iff K_c_returns_iff)
next
  show "K_points og \<sigma> = Inr (y, c) \<longleftrightarrow>
            length c = length (grid og)
            \<and> (\<forall>i<length (grid og). point_returns og \<sigma> (grid og ! i) (c ! i))
            \<and> y = map2 (+) (grid og) c"
    by (simp only: K_points_Inr_iff map_err_Inr_iff K_c_returns_iff conj_assoc)
next
  show "egm_operator_factory og \<sigma> = Inr \<sigma>_new \<longleftrightarrow>
            (\<exists>y c. K_points og \<sigma> = Inr (y, c) \<and> \<sigma>_new = interp y c)"
    by (cases "K_points og \<sigma>") (auto simp: egm_operator_factory_def K_egm_def)
qed

theorem K_egm_fails_iff_a_call_raises_witness:
  "point_returns og_checked identity_policy (1 / 100000) (625000 / 1199976)
   \<and> point_raises og_checked identity_policy 4 DomainError
   \<and> u_prime_inv og_checked (\<beta> og_checked * euler_mean og_checked [- 7] 2) = Inl DomainError
   \<and> egm_operator_factory og_checked identity_policy = Inl DomainError"
proof -
  have sh: "shocks og_checked \<noteq> []"
    by (simp add: example_defs)
  have inv: "u_prime_inv og_checked (\<beta> og_checked * euler_mean og_checked [- 7] 2)
      = Inl DomainError"
    by (simp add: example_defs euler_mean_def u_prime_inv_checked_def)
  have 0: "point_returns og_checked identity_policy (1 / 100000) (625000 / 1199976)"
    unfolding point_returns_def
    by (intro exI [of _ "2 / 100000"] exI [of _ "[2 / 100000]"] exI [of _ "[1 - 2 / 100000]"]
        exI [of _ 2])
      (simp add: example_defs array_returns_def euler_mean_def f_linear_def f_prime_linear_def
        identity_policy_def u_prime_quadratic_def u_prime_inv_checked_def)
  have 1: "point_raises og_checked identity_policy 4 DomainError"
    unfolding point_raises_def
    apply (rule disjI2)
    apply (rule exI [of _ 8])
    apply (rule conjI)
     apply (simp add: example_defs f_linear_def)
    apply (rule disjI2)
    apply (rule exI [of _ "[8]"])
    apply (rule conjI)
     apply (simp add: example_defs array_returns_def identity_policy_def)
    apply (rule disjI2)
    apply (rule exI [of _ "[- 7]"])
    apply (rule conjI)
     apply (simp add: example_defs array_returns_def u_prime_quadratic_def)
    apply (rule disjI2)
    apply (rule exI [of _ 2])
    apply (rule conjI)
     apply (simp add: example_defs f_prime_linear_def)
    apply (rule inv)
    done
  have g: "grid og_checked ! 0 = 1 / 100000" "grid og_checked ! 1 = 4"
    "length (grid og_checked) = 2"
    by (simp_all add: example_defs)
  have "\<exists>i<length (grid og_checked).
      point_raises og_checked identity_policy (grid og_checked ! i) DomainError
      \<and> (\<forall>l<i. \<exists>v. point_returns og_checked identity_policy (grid og_checked ! l) v)"
  proof (rule exI [of _ 1], intro conjI allI impI)
    show "1 < length (grid og_checked)" by (simp add: g)
    show "point_raises og_checked identity_policy (grid og_checked ! 1) DomainError"
      unfolding g by (rule 1)
    fix l :: nat assume "l < 1"
    then have "l = 0" by simp
    then have "grid og_checked ! l = 1 / 100000" by (simp add: g)
    with 0 show "\<exists>v. point_returns og_checked identity_policy (grid og_checked ! l) v"
      by (intro exI [of _ "625000 / 1199976"]) (simp only:)
  qed
  with K_egm_fails_iff_a_call_raises [OF sh, of identity_policy DomainError]
  have "egm_operator_factory og_checked identity_policy = Inl DomainError"
    by blast
  with 0 1 inv show ?thesis by blast
qed

text \<open>
  C4 as stated fails. With the quadratic utility, whose marginal utility \<open>1 - c\<close> is
  below \<open>1\<close> for every positive consumption, the operator hands \<open>u_prime_inv\<close> the
  argument \<open>1.9199616\<close> at the first grid point, which no positive consumption attains;
  no \<open>DomainError\<close> is raised and the returned policy has the negative consumption
  value \<open>-0.9199616\<close> at its first node.
\<close>

theorem K_egm_negative_consumption:
  "K_vals og_quadratic identity_policy (grid og_quadratic ! 0) = Inr [49999 / 25000]
   \<and> \<beta> og_quadratic * np_mean [49999 / 25000] = 1199976 / 625000
   \<and> \<not> (\<exists>c. 0 < c \<and> u_prime og_quadratic c = Inr (1199976 / 625000))
   \<and> K_points og_quadratic identity_policy
       = Inr ([- (2299879 / 2500000), 461 / 25], [- (71872 / 78125), 361 / 25])
   \<and> egm_operator_factory og_quadratic identity_policy
       = Inr (\<lambda>x. interp [- (2299879 / 2500000), 461 / 25] [- (71872 / 78125), 361 / 25] x)
   \<and> interp [- (2299879 / 2500000), 461 / 25] [- (71872 / 78125), 361 / 25]
        (- (2299879 / 2500000)) = Inr (- (71872 / 78125))"
proof -
  have p: "K_points og_quadratic identity_policy
       = Inr ([- (2299879 / 2500000), 461 / 25], [- (71872 / 78125), 361 / 25])"
    by (simp add: K_points_def K_c_def K_vals_def np_mean_def example_defs)
  have "K_vals og_quadratic identity_policy (grid og_quadratic ! 0) = Inr [49999 / 25000]"
    by (simp add: K_vals_def example_defs)
  moreover have "\<beta> og_quadratic * np_mean [49999 / 25000] = 1199976 / 625000"
    by (simp add: np_mean_def example_defs)
  moreover have "\<not> (\<exists>c. 0 < c \<and> u_prime og_quadratic c = Inr (1199976 / 625000))"
    by (auto simp: example_defs)
  moreover have "egm_operator_factory og_quadratic identity_policy
       = Inr (\<lambda>x. interp [- (2299879 / 2500000), 461 / 25] [- (71872 / 78125), 361 / 25] x)"
    by (simp only: egm_operator_factory_def K_egm_def p sum.case prod.case)
  moreover have "interp [- (2299879 / 2500000), 461 / 25] [- (71872 / 78125), 361 / 25]
        (- (2299879 / 2500000)) = Inr (- (71872 / 78125))"
    by (simp add: lerp_def)
  ultimately show ?thesis using p by simp
qed

text \<open>
  C5. Let the operator return the pairs \<open>(y, c)\<close>, at least two of them and ordered, the
  incomes \<open>y\<close> strictly increasing. Then the returned policy never raises. Below \<open>y\<^sub>0\<close> its
  value lies on the line through the first two pairs, above the last income on the line
  through the last two pairs, and between two neighbouring incomes on the line through
  their pairs.
\<close>

theorem policy_interpolates_and_extrapolates:
  assumes "K_points og \<sigma> = Inr (y, c)" and "sorted_wrt (<) y" and "2 \<le> length y"
  shows "\<exists>\<sigma>_new. egm_operator_factory og \<sigma> = Inr \<sigma>_new
           \<and> (\<forall>x. \<exists>v. \<sigma>_new x = Inr v)
           \<and> (\<forall>x. x < y ! 0 \<longrightarrow> \<sigma>_new x = Inr (lerp (y ! 0) (c ! 0) (y ! 1) (c ! 1) x))
           \<and> (\<forall>x. last y < x \<longrightarrow>
                 \<sigma>_new x = Inr (lerp (y ! (length y - 2)) (c ! (length y - 2))
                                 (y ! (length y - 1)) (c ! (length y - 1)) x))
           \<and> (\<forall>x i. i + 1 < length y \<and> y ! i \<le> x \<and> x \<le> y ! (i + 1) \<longrightarrow>
                 \<sigma>_new x = Inr (lerp (y ! i) (c ! i) (y ! (i + 1)) (c ! (i + 1)) x))"
proof -
  have len: "length c = length y"
    using K_points_lengths(1,2) [OF assms(1)] by simp
  have k: "egm_operator_factory og \<sigma> = Inr (\<lambda>x. interp y c x)"
    using assms(1) by (simp add: egm_operator_factory_def K_egm_Inr)
  have total: "\<exists>v. interp y c x = Inr v" for x
  proof (cases "x \<le> last y")
    case False
    then show ?thesis
      using interp_above [OF assms(2) len assms(3), of x] by simp
  next
    case True
    show ?thesis
    proof (cases "x < y ! 0")
      case True
      then show ?thesis
        using interp_below [OF assms(2) len assms(3), of x] by simp
    next
      case False
      let ?P = "\<lambda>j. j + 1 < length y \<and> x \<le> y ! (j + 1)"
      have "y \<noteq> []" using assms(3) by auto
      then have "last y = y ! (length y - 2 + 1)"
        using assms(3) by (simp add: last_conv_nth Suc_diff_Suc numeral_2_eq_2)
      with \<open>x \<le> last y\<close> assms(3) have "?P (length y - 2)" by simp
      then have ex: "\<exists>j. ?P j" ..
      define i where "i = (LEAST j. ?P j)"
      from ex have Pi: "?P i" unfolding i_def by (rule LeastI_ex)
      have "y ! i \<le> x"
      proof (cases i)
        case 0
        with False show ?thesis by simp
      next
        case (Suc j)
        have "\<not> ?P j"
          using not_less_Least [of j ?P] Suc unfolding i_def by simp
        moreover have "j + 1 < length y" using Pi Suc by simp
        ultimately show ?thesis using Suc by simp
      qed
      with Pi show ?thesis
        using interp_between [OF assms(2) len, of i x] by simp
    qed
  qed
  have below: "x < y ! 0 \<Longrightarrow> interp y c x = Inr (lerp (y ! 0) (c ! 0) (y ! 1) (c ! 1) x)" for x
    by (rule interp_below [OF assms(2) len assms(3)])
  have above: "last y < x \<Longrightarrow>
      interp y c x = Inr (lerp (y ! (length y - 2)) (c ! (length y - 2))
                                 (y ! (length y - 1)) (c ! (length y - 1)) x)" for x
    by (rule interp_above [OF assms(2) len assms(3)])
  have between: "i + 1 < length y \<and> y ! i \<le> x \<and> x \<le> y ! (i + 1) \<Longrightarrow>
      interp y c x = Inr (lerp (y ! i) (c ! i) (y ! (i + 1)) (c ! (i + 1)) x)" for x i
    using interp_between [OF assms(2) len, of i x] by simp
  show ?thesis
    using k total below above between by (intro exI [of _ "\<lambda>x. interp y c x"]) blast
qed

theorem policy_interpolates_and_extrapolates_witness:
  "\<exists>\<sigma>_new. egm_operator_factory og_half identity_policy = Inr \<sigma>_new
      \<and> \<sigma>_new 0 = Inr 0 \<and> \<sigma>_new 6 = Inr 4 \<and> \<sigma>_new 15 = Inr 10"
proof -
  have s: "sorted_wrt (<) [3 / 100000, 12 :: real]" and l: "2 \<le> length [3 / 100000, 12 :: real]"
    by simp_all
  from policy_interpolates_and_extrapolates [OF og_half_points s l]
  obtain \<sigma>_new where k: "egm_operator_factory og_half identity_policy = Inr \<sigma>_new"
    and below: "\<forall>x. x < [3 / 100000, 12] ! 0 \<longrightarrow>
        \<sigma>_new x = Inr (lerp ([3 / 100000, 12] ! 0) ([1 / 50000, 8] ! 0)
                        ([3 / 100000, 12] ! 1) ([1 / 50000, 8] ! 1) x)"
    and above: "\<forall>x. last [3 / 100000, 12] < x \<longrightarrow>
        \<sigma>_new x = Inr (lerp ([3 / 100000, 12] ! (length [3 / 100000, 12 :: real] - 2))
                        ([1 / 50000, 8] ! (length [3 / 100000, 12 :: real] - 2))
                        ([3 / 100000, 12] ! (length [3 / 100000, 12 :: real] - 1))
                        ([1 / 50000, 8] ! (length [3 / 100000, 12 :: real] - 1)) x)"
    and between: "\<forall>x i. i + 1 < length [3 / 100000, 12 :: real]
          \<and> [3 / 100000, 12] ! i \<le> x \<and> x \<le> [3 / 100000, 12] ! (i + 1) \<longrightarrow>
        \<sigma>_new x = Inr (lerp ([3 / 100000, 12] ! i) ([1 / 50000, 8] ! i)
                        ([3 / 100000, 12] ! (i + 1)) ([1 / 50000, 8] ! (i + 1)) x)"
    by blast
  from below have "\<sigma>_new 0 = Inr 0"
    by (simp add: lerp_def)
  moreover from between [rule_format, of 0 6] have "\<sigma>_new 6 = Inr 4"
    by (simp add: lerp_def)
  moreover from above have "\<sigma>_new 15 = Inr 10"
    by (simp add: lerp_def)
  ultimately show ?thesis using k by blast
qed







text \<open>
  C8. Let the exogenous grid operator, run with the root-finder \<open>brentq\<close>, return for a
  policy array that is at least as long as the grid, and let \<open>y\<^sub>i\<close> be a grid point that
  is not below \<open>2e-10\<close>. Then the output has the length of the policy array, and its
  value at index \<open>i\<close> is the root component of what \<open>brentq\<close> returns for the function
  \<open>c \<mapsto> objective c \<sigma> y\<^sub>i\<close> on the bracket from \<open>1e-10\<close> to \<open>y\<^sub>i - 1e-10\<close>, called without
  tolerance or iteration arguments, so with the defaults \<open>xtol = rtol = 1e-10\<close> and
  \<open>maxiter = 100\<close>. The value lies in the bracket, hence strictly between \<open>0\<close> and \<open>y\<^sub>i\<close>;
  the search makes at most \<open>100\<close> iterations, and it converges when \<open>y\<^sub>i\<close> is not above
  \<open>1e20\<close>. When it converged, the objective is \<open>0\<close> at the value, or the value lies in a
  part of the bracket at whose ends the objective has opposite signs and whose width is
  at most \<open>1e-10 + 1e-10 * \<bar>c\<bar>\<close>. Where the calls return and the shock sample is not
  empty, the objective at \<open>c\<close> is
  \<open>u_prime c - \<beta> * mean\<^sub>j (u_prime (\<sigma>_func (f (y - c) * z\<^sub>j)) * f_prime (y - c) * z\<^sub>j)\<close>, with
  \<open>\<sigma>_func\<close> the interpolant of the policy array over the grid.
\<close>

theorem K_time_root:
  assumes "time_operator_factory brentq og flag order \<sigma> mem = Inr \<sigma>_new"
    and "prange (length (grid og)) order" and "length (grid og) \<le> length \<sigma>"
    and "i < length (grid og)" and "2 / 10 ^ 10 \<le> grid og ! i" and "shocks og \<noteq> []"
  shows "length \<sigma>_new = length \<sigma>
    \<and> (\<exists>r. brentq (\<lambda>c. objective og c \<sigma> (grid og ! i)) (1 / 10 ^ 10)
              (grid og ! i - 1 / 10 ^ 10) None None None = Inr r
          \<and> \<sigma>_new ! i = root r
          \<and> 1 / 10 ^ 10 \<le> root r \<and> root r \<le> grid og ! i - 1 / 10 ^ 10
          \<and> 0 < \<sigma>_new ! i \<and> \<sigma>_new ! i < grid og ! i
          \<and> iterations r \<le> 100
          \<and> (grid og ! i \<le> 10 ^ 20 \<longrightarrow> converged r)
          \<and> (converged r \<longrightarrow>
                objective og (root r) \<sigma> (grid og ! i) = Inr 0
                \<or> (\<exists>lo hi fl fh.
                      1 / 10 ^ 10 \<le> lo \<and> lo \<le> root r \<and> root r \<le> hi
                      \<and> hi \<le> grid og ! i - 1 / 10 ^ 10
                      \<and> hi - lo \<le> 1 / 10 ^ 10 + 1 / 10 ^ 10 * \<bar>root r\<bar>
                      \<and> objective og lo \<sigma> (grid og ! i) = Inr fl
                      \<and> objective og hi \<sigma> (grid og ! i) = Inr fh \<and> fl * fh < 0)))
    \<and> (\<forall>c y fk fpk upc cs ups.
          f og (y - c) = Inr fk
          \<and> array_returns (interp (grid og) \<sigma>) (map (\<lambda>z. fk * z) (shocks og)) cs
          \<and> array_returns (u_prime og) cs ups
          \<and> f_prime og (y - c) = Inr fpk \<and> u_prime og c = Inr upc
          \<longrightarrow> objective og c \<sigma> y = Inr (upc - \<beta> og * euler_mean og ups fpk))"
proof -
  let ?o = "if flag then order else [0..<length (grid og)]"
  have o: "set ?o = {0..<length (grid og)}"
    using assms(2) by (simp add: prange_def)
  from assms(1) have run: "K_time brentq og ?o \<sigma> mem = Inr \<sigma>_new"
    by (simp add: time_operator_factory_def)
  note slots = K_time_slots [OF o assms(3) run]
  from slots(2) assms(4) obtain r
    where r: "brentq (\<lambda>c. objective og c \<sigma> (grid og ! i)) (1 / 10 ^ 10)
              (grid og ! i - 1 / 10 ^ 10) None None None = Inr r"
      and v: "\<sigma>_new ! i = root r"
    by blast
  have ab: "1 / 10 ^ 10 \<le> grid og ! i - 1 / 10 ^ 10"
    using assms(5) by simp
  note br = brentq_bracket [OF r ab]
  from br have in_bracket: "1 / 10 ^ 10 \<le> root r" "root r \<le> grid og ! i - 1 / 10 ^ 10"
    by simp_all
  then have open_interval: "0 < \<sigma>_new ! i" "\<sigma>_new ! i < grid og ! i"
    unfolding v by (simp_all add: less_le_trans [of 0 "1 / 10 ^ 10"])
  from br have its: "iterations r \<le> 100" by simp
  have conv: "converged r" if "grid og ! i \<le> 10 ^ 20"
  proof -
    from that have "grid og ! i - 1 / 10 ^ 10 - 1 / 10 ^ 10 \<le> 10 ^ 20" by simp
    with br show ?thesis by blast
  qed
  from br have tol: "converged r \<longrightarrow>
      objective og (root r) \<sigma> (grid og ! i) = Inr 0
      \<or> (\<exists>lo hi fl fh.
            1 / 10 ^ 10 \<le> lo \<and> lo \<le> root r \<and> root r \<le> hi
            \<and> hi \<le> grid og ! i - 1 / 10 ^ 10
            \<and> hi - lo \<le> 1 / 10 ^ 10 + 1 / 10 ^ 10 * \<bar>root r\<bar>
            \<and> objective og lo \<sigma> (grid og ! i) = Inr fl
            \<and> objective og hi \<sigma> (grid og ! i) = Inr fh \<and> fl * fh < 0)"
    by blast
  have formula: "objective og c \<sigma> y = Inr (upc - \<beta> og * euler_mean og ups fpk)"
    if "f og (y - c) = Inr fk
          \<and> array_returns (interp (grid og) \<sigma>) (map (\<lambda>z. fk * z) (shocks og)) cs
          \<and> array_returns (u_prime og) cs ups
          \<and> f_prime og (y - c) = Inr fpk \<and> u_prime og c = Inr upc"
    for c y fk fpk upc cs ups
    using that by (intro objective_formula) blast+
  from slots(1) r v in_bracket open_interval its conv tol formula show ?thesis
    by blast
qed

theorem K_time_root_witness:
  "time_operator_factory brentq og_half True [1, 0] [1 / 100000, 4] (\<lambda>i. 0)
     = Inr [8738106309 / 1310720000000000, 458129844894273376939 / 171798691840000000000]
   \<and> (\<exists>r. brentq (\<lambda>c. objective og_half c [1 / 100000, 4] 4) (1 / 10 ^ 10) (4 - 1 / 10 ^ 10)
             None None None = Inr r
         \<and> root r = 458129844894273376939 / 171798691840000000000
         \<and> iterations r \<le> 100 \<and> converged r
         \<and> (objective og_half (root r) [1 / 100000, 4] 4 = Inr 0
              \<or> (\<exists>lo hi fl fh.
                    1 / 10 ^ 10 \<le> lo \<and> lo \<le> root r \<and> root r \<le> hi \<and> hi \<le> 4 - 1 / 10 ^ 10
                    \<and> hi - lo \<le> 1 / 10 ^ 10 + 1 / 10 ^ 10 * \<bar>root r\<bar>
                    \<and> objective og_half lo [1 / 100000, 4] 4 = Inr fl
                    \<and> objective og_half hi [1 / 100000, 4] 4 = Inr fh \<and> fl * fh < 0)))
   \<and> \<bar>458129844894273376939 / 171798691840000000000 - 8 / 3\<bar> \<le> (1 / 10 ^ 9 :: real)"
proof -
  have p: "prange (length (grid og_half)) [1, 0]"
    by (auto simp: prange_def example_defs)
  have l: "length (grid og_half) \<le> length [1 / 100000, 4 :: real]"
    and i: "1 < length (grid og_half)" and y: "2 / 10 ^ 10 \<le> grid og_half ! 1"
    and sh: "shocks og_half \<noteq> []"
    by (simp_all add: example_defs)
  have g: "grid og_half ! 1 = 4"
    by (simp add: example_defs)
  from K_time_root [OF og_half_time_brentq p l i y sh, unfolded g]
  obtain r where r: "brentq (\<lambda>c. objective og_half c [1 / 100000, 4] 4) (1 / 10 ^ 10)
        (4 - 1 / 10 ^ 10) None None None = Inr r"
    and v: "[8738106309 / 1310720000000000, 458129844894273376939 / 171798691840000000000] ! 1
        = root r"
    and its: "iterations r \<le> 100"
    and conv: "4 \<le> (10 :: real) ^ 20 \<longrightarrow> converged r"
    and tol: "converged r \<longrightarrow>
      objective og_half (root r) [1 / 100000, 4] 4 = Inr 0
      \<or> (\<exists>lo hi fl fh.
            1 / 10 ^ 10 \<le> lo \<and> lo \<le> root r \<and> root r \<le> hi \<and> hi \<le> 4 - 1 / 10 ^ 10
            \<and> hi - lo \<le> 1 / 10 ^ 10 + 1 / 10 ^ 10 * \<bar>root r\<bar>
            \<and> objective og_half lo [1 / 100000, 4] 4 = Inr fl
            \<and> objective og_half hi [1 / 100000, 4] 4 = Inr fh \<and> fl * fh < 0)"
    by blast
  from conv have c: "converged r" by simp
  from v have root: "root r = 458129844894273376939 / 171798691840000000000" by simp
  have near: "\<bar>458129844894273376939 / 171798691840000000000 - 8 / 3\<bar> \<le> (1 / 10 ^ 9 :: real)"
    by simp
  from r root its c tol near og_half_time_brentq show ?thesis
    by blast
qed

text \<open>
  C9. Under the same conditions the returned policy passes through its own sample
  pairs: at the income \<open>y\<^sub>i\<close> its value is \<open>c\<^sub>i\<close>.
\<close>

theorem policy_node_fidelity:
  assumes "K_points og \<sigma> = Inr (y, c)" and "sorted_wrt (<) y" and "2 \<le> length y"
  shows "\<exists>\<sigma>_new. egm_operator_factory og \<sigma> = Inr \<sigma>_new
           \<and> (\<forall>i<length y. \<sigma>_new (y ! i) = Inr (c ! i))"
proof -
  have len: "length c = length y"
    using K_points_lengths(1,2) [OF assms(1)] by simp
  have "egm_operator_factory og \<sigma> = Inr (\<lambda>x. interp y c x)"
    using assms(1) by (simp add: egm_operator_factory_def K_egm_Inr)
  moreover have "\<forall>i<length y. interp y c (y ! i) = Inr (c ! i)"
    using interp_node [OF assms(2) len assms(3)] by blast
  ultimately show ?thesis by blast
qed

theorem policy_node_fidelity_witness:
  "\<exists>\<sigma>_new. egm_operator_factory og_log_linear identity_policy = Inr \<sigma>_new
      \<and> \<sigma>_new (49 / 2400000) = Inr (1 / 96000) \<and> \<sigma>_new (49 / 6) = Inr (25 / 6)"
proof -
  have s: "sorted_wrt (<) [49 / 2400000, 49 / 6 :: real]"
    and l: "2 \<le> length [49 / 2400000, 49 / 6 :: real]"
    by simp_all
  from policy_node_fidelity [OF og_log_linear_points s l]
  obtain \<sigma>_new where k: "egm_operator_factory og_log_linear identity_policy = Inr \<sigma>_new"
    and node: "\<forall>i<length [49 / 2400000, 49 / 6 :: real].
        \<sigma>_new ([49 / 2400000, 49 / 6] ! i) = Inr ([1 / 96000, 25 / 6] ! i)"
    by blast
  from node [rule_format, of 0] node [rule_format, of 1] k show ?thesis
    by auto
qed

text \<open>
  C10. For \<open>grid_max > 1e-5\<close> and \<open>grid_size \<ge> 2\<close> (and a shock sample size that is not
  negative) the constructor returns a model whose grid points lie in \<open>[1e-5, grid_max]\<close>
  and are positive and whose shocks are \<open>exp (\<mu> + s * Z\<^sub>i)\<close> for the draws \<open>Z\<^sub>i\<close>, hence
  positive. If \<open>f\<close> maps positive capital to positive output, the operator calls the
  policy on positive incomes only: two policies that agree on the positive reals give
  the same result.
\<close>

theorem policy_arguments_positive:
  assumes "1 / 100000 < grid_max" and "2 \<le> grid_size" and "0 \<le> shock_size"
  shows "\<exists>og g'. OptimalGrowthModel_init f0 f_prime0 u0 u_prime0 u_prime_inv0 \<beta>0 \<mu>0 s0
                    grid_max grid_size shock_size g = (Inr og, g')
           \<and> (\<forall>k\<in>set (grid og). 1 / 100000 \<le> k \<and> k \<le> grid_max \<and> 0 < k)
           \<and> shocks og = map (\<lambda>i. exp (\<mu>0 + s0 * g i)) [0..<nat shock_size]
           \<and> (\<forall>z\<in>set (shocks og). 0 < z)
           \<and> (positive_pos f0 \<longrightarrow>
                (\<forall>k\<in>set (grid og). \<exists>fk. f og k = Inr fk
                    \<and> (\<forall>z\<in>set (shocks og). 0 < fk * z))
                \<and> (\<forall>\<sigma> \<sigma>'. (\<forall>x. 0 < x \<longrightarrow> \<sigma> x = \<sigma>' x) \<longrightarrow>
                      egm_operator_factory og \<sigma> = egm_operator_factory og \<sigma>'))"
proof -
  have gs: "0 \<le> grid_size" using assms(2) by simp
  obtain gr where gr: "np_linspace (1 / 100000) grid_max grid_size = Inr gr"
    and init: "OptimalGrowthModel_init f0 f_prime0 u0 u_prime0 u_prime_inv0 \<beta>0 \<mu>0 s0
           grid_max grid_size shock_size g
         = (Inr \<lparr>\<beta> = \<beta>0, \<mu> = \<mu>0, s = s0, f = f0, u = u0, f_prime = f_prime0,
                  u_prime = u_prime0, u_prime_inv = u_prime_inv0, grid = gr,
                  shocks = map (\<lambda>i. exp (\<mu>0 + s0 * g i)) [0..<nat shock_size]\<rparr>,
            (\<lambda>i. g (i + nat shock_size)))"
    by (rule init_Inr [OF gs assms(3)])
  define og where "og = \<lparr>\<beta> = \<beta>0, \<mu> = \<mu>0, s = s0, f = f0, u = u0, f_prime = f_prime0,
                  u_prime = u_prime0, u_prime_inv = u_prime_inv0, grid = gr,
                  shocks = map (\<lambda>i. exp (\<mu>0 + s0 * g i)) [0..<nat shock_size]\<rparr>"
  have grid: "grid og = gr" and f: "f og = f0"
    and sh: "shocks og = map (\<lambda>i. exp (\<mu>0 + s0 * g i)) [0..<nat shock_size]"
    by (simp_all add: og_def)
  have bounds: "1 / 100000 \<le> k \<and> k \<le> grid_max \<and> 0 < k" if "k \<in> set (grid og)" for k
  proof -
    from that grid have "k \<in> set gr" by simp
    from np_linspace_bounds [OF assms(2,1) gr this]
    have "1 / 100000 \<le> k \<and> k \<le> grid_max" .
    then show ?thesis by simp
  qed
  have zpos: "0 < z" if "z \<in> set (shocks og)" for z
    using that by (auto simp: sh)
  have pos: "\<exists>fk. f og k = Inr fk \<and> (\<forall>z\<in>set (shocks og). 0 < fk * z)"
    if "positive_pos f0" "k \<in> set (grid og)" for k
  proof -
    from bounds [OF that(2)] have "0 < k" by simp
    with that(1) obtain fk where fk: "f0 k = Inr fk" "0 < fk"
      unfolding positive_pos_def by blast
    then show ?thesis using zpos f by auto
  qed
  have same: "egm_operator_factory og \<sigma> = egm_operator_factory og \<sigma>'"
    if pf: "positive_pos f0" and agree: "\<forall>x. 0 < x \<longrightarrow> \<sigma> x = \<sigma>' x" for \<sigma> \<sigma>'
  proof -
    have "K_vals og \<sigma> k = K_vals og \<sigma>' k" if k: "k \<in> set (grid og)" for k
    proof -
      from pos [OF pf k]
      obtain fk where fk: "f og k = Inr fk" "\<forall>z\<in>set (shocks og). 0 < fk * z"
        by blast
      show ?thesis
        by (rule K_vals_policy_cong [OF fk(1)]) (use fk(2) agree in blast)
    qed
    then have "K_c og \<sigma> k = K_c og \<sigma>' k" if "k \<in> set (grid og)" for k
      using that by (simp add: K_c_def)
    then have "map_err (K_c og \<sigma>) (grid og) = map_err (K_c og \<sigma>') (grid og)"
      by (rule map_err_cong)
    then show ?thesis
      by (simp add: egm_operator_factory_def K_egm_def K_points_def)
  qed
  show ?thesis
    using init bounds sh zpos pos same unfolding og_def [symmetric]
    by (intro exI [of _ og] exI [of _ "\<lambda>i. g (i + nat shock_size)"]) blast
qed

theorem policy_arguments_positive_witness:
  "\<exists>og g'. OptimalGrowthModel_init f_linear f_prime_linear u_quadratic u_prime_quadratic
              u_prime_quadratic (96 / 100) 0 (1 / 10) 4 200 250 zero_draws = (Inr og, g')
      \<and> (\<forall>k\<in>set (grid og). 1 / 100000 \<le> k \<and> k \<le> 4 \<and> 0 < k)
      \<and> (\<forall>z\<in>set (shocks og). 0 < z)
      \<and> egm_operator_factory og identity_policy
          = egm_operator_factory og (\<lambda>x. if 0 < x then Inr x else Inl DomainError)"
proof -
  have a: "1 / 100000 < (4 :: real)" "2 \<le> (200 :: int)" "0 \<le> (250 :: int)"
    by simp_all
  have p: "positive_pos f_linear"
    by (simp add: positive_pos_def f_linear_def)
  have e: "\<forall>x. 0 < x \<longrightarrow> identity_policy x = (if 0 < x then Inr x else Inl DomainError)"
    by (simp add: identity_policy_def)
  from policy_arguments_positive [OF a, of f_linear f_prime_linear u_quadratic u_prime_quadratic
      u_prime_quadratic "96 / 100" 0 "1 / 10" zero_draws]
  obtain og g' where i: "OptimalGrowthModel_init f_linear f_prime_linear u_quadratic
        u_prime_quadratic u_prime_quadratic (96 / 100) 0 (1 / 10) 4 200 250 zero_draws = (Inr og, g')"
    and k: "\<forall>k\<in>set (grid og). 1 / 100000 \<le> k \<and> k \<le> 4 \<and> 0 < k"
    and z: "\<forall>z\<in>set (shocks og). 0 < z"
    and c: "positive_pos f_linear \<longrightarrow>
        (\<forall>k\<in>set (grid og). \<exists>fk. f og k = Inr fk \<and> (\<forall>z\<in>set (shocks og). 0 < fk * z))
        \<and> (\<forall>\<sigma> \<sigma>'. (\<forall>x. 0 < x \<longrightarrow> \<sigma> x = \<sigma>' x) \<longrightarrow>
              egm_operator_factory og \<sigma> = egm_operator_factory og \<sigma>')"
    by blast
  from c p have "\<forall>\<sigma> \<sigma>'. (\<forall>x. 0 < x \<longrightarrow> \<sigma> x = \<sigma>' x) \<longrightarrow>
      egm_operator_factory og \<sigma> = egm_operator_factory og \<sigma>'"
    by blast
  from this [THEN spec, THEN spec, of identity_policy
      "\<lambda>x. if 0 < x then Inr x else Inl DomainError"] e
  have "egm_operator_factory og identity_policy
          = egm_operator_factory og (\<lambda>x. if 0 < x then Inr x else Inl DomainError)"
    by simp
  with i k z show ?thesis by blast
qed

end
